theory Spec2Isabelle
  imports Main "HOL-Library.AList"
begin

section \<open>Data model\<close>

text \<open>
  The client \<^verbatim>\<open>clientsync.go\<close> reconciles a local directory with a server. Its types live
  in the packages \<^verbatim>\<open>utils\<close> and \<^verbatim>\<open>api\<close>; the model keeps the fields the client reads or
  writes. A Go \<^verbatim>\<open>error\<close> is represented by its message, a Go pointer by an option
  (\<open>None\<close> is \<^verbatim>\<open>nil\<close>), and a Go map by an association list whose order is the order in
  which \<^verbatim>\<open>range\<close> visits the entries in the run at hand (Go leaves it unspecified, so the
  theorems hold for every order); a lookup \<^verbatim>\<open>m[k]\<close> is \<open>map_of m k\<close> and an assignment
  \<^verbatim>\<open>m[k] = v\<close> is \<open>AList.update k v m\<close>.
\<close>

type_synonym error = string

text \<open>\<^verbatim>\<open>utils.FileMetadata\<close>: the status tag and, as one component, every other field.\<close>

record 'm FileMetadata =
  Status :: string
  Meta :: 'm

text \<open>\<^verbatim>\<open>utils.DirectoryMetadata\<close>: \<^verbatim>\<open>Files map[string]utils.FileMetadata\<close>.\<close>

record 'm DirectoryMetadata =
  Files :: "(string \<times> 'm FileMetadata) list"

text \<open>\<^verbatim>\<open>utils.FileActionMetadata\<close> and \<^verbatim>\<open>utils.SyncActionMetadata\<close> (its map is also called
  \<^verbatim>\<open>Files\<close> in the source).\<close>

record FileActionMetadata =
  Action :: string

record SyncActionMetadata =
  ActionFiles :: "(string \<times> FileActionMetadata) list"

text \<open>\<^verbatim>\<open>api.PostSnapshotRequest\<close>, \<^verbatim>\<open>api.PostSnapshotResponse\<close>, \<^verbatim>\<open>api.UploadResponse\<close>.\<close>

record 'm PostSnapshotRequest =
  ClientID :: string
  FinalSnapshot :: "'m DirectoryMetadata option"

record PostSnapshotResponse =
  SyncActionMetadata :: "SyncActionMetadata option"

record UploadResponse =
  FileURL :: string

text \<open>The request built by \<^verbatim>\<open>http.NewRequest\<close> and the response of \<^verbatim>\<open>http.DefaultClient.Do\<close>;
  \<open>RespBody\<close> is what \<^verbatim>\<open>io.ReadAll(resp.Body)\<close> yields.\<close>

record request =
  Method :: string
  URL :: string
  Body :: string
  Header :: "(string \<times> string) list"

record response =
  RespBody :: "error + string"

text \<open>Modelled from the spec: the string constants of package \<^verbatim>\<open>utils\<close>, whose declarations
  are not part of \<^verbatim>\<open>clientsync.go\<close>. The spec names the status \<open>deleted\<close> and the actions
  \<open>upload\<close>, \<open>download\<close>, \<open>mkdir\<close>.\<close>

definition StatusDeleted :: string where
  "StatusDeleted = ''deleted''"

definition ActionUpload :: string where
  "ActionUpload = ''upload''"

definition ActionDownload :: string where
  "ActionDownload = ''download''"

definition ActionMkdir :: string where
  "ActionMkdir = ''mkdir''"

subsection \<open>Observable events\<close>

text \<open>Every log statement of the source is one constructor, carrying what the statement
  prints.\<close>

datatype 'm logline =
    LogNoEnv error
  | LogStarting
  | RmqErrorConnection
  | RmqErrorDeclare error
  | LogPurgeError error
  | LogPurging int
  | LogGettingLast
  | LogError error
  | LogLastStruct "'m DirectoryMetadata option"
  | LogGettingCurrent
  | LogCurrentStruct "'m DirectoryMetadata option"
  | LogLastExists
  | LogLastMissing
  | LogProcessingActions
  | LogTombstone string
  | LogPosting
  | LogFinalSnapshot "'m DirectoryMetadata option"
  | LogMarshalFailed error
  | LogRequestFailed error
  | LogDoFailed error
  | LogReadFailed error
  | LogUnmarshalFailed error
  | LogNoActions
  | LogProcessingAction string string
  | LogUploadFailed string error
  | LogUploaded string string
  | LogDownloadFailed string error
  | LogDownloaded string
  | LogMkdirFailed string error
  | LogMkdirOk string
  | LogUnknownAction string string
  | LogCreatingSnapshot
  | LogSnapshotFailed error
  | LogSnapshotOk

text \<open>Every call of a collaborator that acts on the outside world.\<close>

datatype call =
    NewConnectionCall string
  | DeclareQueueCall string
  | PurgeQueueCall string
  | GetLastSnapshotCall
  | GetLocalMetadataCall
  | HttpDo request
  | ReadAll
  | BodyClose
  | UploadCall string string
  | DownloadCall string
  | MkDirCall string
  | CreateDirectorySnapshotCall
  | ManagementClose
  | ConnectionClose
  | CloseConnections

datatype 'm event = Log "'m logline" | Call call | Panic

text \<open>A function that dereferences a nil pointer panics instead of returning.\<close>

datatype 'a outcome = Panics | Returns 'a

section \<open>The diff engine: \<^verbatim>\<open>processSnapshots\<close>\<close>

text \<open>The first loop (\<^verbatim>\<open>for path, fileMetadata := range lastSnapshot.Files\<close>): a path that
  the current snapshot lacks is logged and entered with status deleted.\<close>

fun rangeLast ::
  "(string \<times> 'm FileMetadata) list \<Rightarrow> 'm DirectoryMetadata \<Rightarrow> 'm DirectoryMetadata
    \<Rightarrow> 'm event list \<times> 'm DirectoryMetadata" where
  "rangeLast [] currentSnapshot finalSnapshot = ([], finalSnapshot)"
| "rangeLast ((path, fileMetadata) # rest) currentSnapshot finalSnapshot =
     (case map_of (Files currentSnapshot) path of
        None \<Rightarrow>
          (case rangeLast rest currentSnapshot
                  (finalSnapshot\<lparr>Files :=
                     AList.update path (fileMetadata\<lparr>Status := StatusDeleted\<rparr>)
                       (Files finalSnapshot)\<rparr>) of
             (evs, final) \<Rightarrow> (Log (LogTombstone path) # evs, final))
      | Some _ \<Rightarrow> rangeLast rest currentSnapshot finalSnapshot)"

text \<open>The second loop (\<^verbatim>\<open>for path, fileMetadata := range currentSnapshot.Files\<close>).\<close>

fun rangeCurrent ::
  "(string \<times> 'm FileMetadata) list \<Rightarrow> 'm DirectoryMetadata \<Rightarrow> 'm DirectoryMetadata" where
  "rangeCurrent [] finalSnapshot = finalSnapshot"
| "rangeCurrent ((path, fileMetadata) # rest) finalSnapshot =
     rangeCurrent rest
       (finalSnapshot\<lparr>Files := AList.update path fileMetadata (Files finalSnapshot)\<rparr>)"

text \<open>\<^verbatim>\<open>processSnapshots\<close> takes two pointers. Reading \<^verbatim>\<open>.Files\<close> through a nil pointer panics,
  and it does so before anything is logged: \<^verbatim>\<open>lastSnapshot.Files\<close> is read when the first
  loop starts, \<^verbatim>\<open>currentSnapshot.Files\<close> in its first iteration or, when \<^verbatim>\<open>lastSnapshot\<close>
  has no file, when the second loop starts. The result is the pointee of the returned
  pointer together with the log lines written.\<close>

definition processSnapshots ::
  "'m DirectoryMetadata option \<Rightarrow> 'm DirectoryMetadata option
    \<Rightarrow> 'm DirectoryMetadata outcome \<times> 'm event list" where
  "processSnapshots lastSnapshot currentSnapshot =
     (case lastSnapshot of
        None \<Rightarrow> (Panics, [])
      | Some lastS \<Rightarrow>
          (case currentSnapshot of
             None \<Rightarrow> (Panics, [])
           | Some currentS \<Rightarrow>
               (case rangeLast (Files lastS) currentS \<lparr>Files = []\<rparr> of
                  (evs, final) \<Rightarrow> (Returns (rangeCurrent (Files currentS) final), evs))))"

text \<open>Vocabulary of the claims: the paths of a snapshot, the record of a path, and whether
  a path is recorded with status deleted (a tombstone). A Go map holds a key once.\<close>

definition paths :: "'m DirectoryMetadata \<Rightarrow> string set" where
  "paths s = fst ` set (Files s)"

definition record_of :: "'m DirectoryMetadata \<Rightarrow> string \<Rightarrow> 'm FileMetadata option" where
  "record_of s p = map_of (Files s) p"

definition deleted_at :: "'m DirectoryMetadata \<Rightarrow> string \<Rightarrow> bool" where
  "deleted_at s p =
     (case map_of (Files s) p of None \<Rightarrow> False | Some fm \<Rightarrow> Status fm = StatusDeleted)"

definition unique_keys :: "('k \<times> 'v) list \<Rightarrow> bool" where
  "unique_keys m = distinct (map fst m)"


section \<open>Collaborators\<close>

text \<open>The configuration read from the environment and the collaborators the client calls
  (queue client, file manager, JSON codec, HTTP client, transfer API, path conversion) are
  not part of \<^verbatim>\<open>clientsync.go\<close>. They are parameters of the model: an \<open>env\<close> fixes the
  configuration and what each collaborator answers in the run at hand, so a theorem for
  every \<open>env\<close> covers every pattern of successes and failures. A collaborator answers
  with its result or with an error; the two snapshot readers return a pointer next to the
  error, as their callers in \<^verbatim>\<open>main\<close> show.

  Modelled from the spec: the file manager's \<^verbatim>\<open>CreateDirectorySnapshot\<close>, which is missing
  from the source, is the only operation that writes the persisted last snapshot (the
  spec: it captures and persists current state as the new last snapshot; the store is read
  once and written once per cycle). It is a transformer of the store, \<open>None\<close> meaning that
  no last snapshot is persisted, and returns its error.\<close>

type_synonym 'm store = "'m DirectoryMetadata option"

record 'm env =
  clientID :: string
  address :: string
  queueName :: string
  serverURL :: string
  syncDirectory :: string
  godotenv_Load :: "error option"
  NewConnection :: "error option"
  DeclareQueue :: "string \<Rightarrow> error option"
  PurgeQueue :: "string \<Rightarrow> error + int"
  GetLastSnapshot :: "'m DirectoryMetadata option \<times> bool \<times> error option"
  GetLocalMetadata :: "'m DirectoryMetadata option \<times> error option"
  json_Marshal :: "'m PostSnapshotRequest \<Rightarrow> error + string"
  http_NewRequest :: "string \<Rightarrow> string \<Rightarrow> string \<Rightarrow> error option"
  http_Do :: "request \<Rightarrow> error + response"
  json_Unmarshal :: "string \<Rightarrow> error + PostSnapshotResponse"
  RelToAbsConvert :: "string \<Rightarrow> string \<Rightarrow> string"
  Upload :: "string \<Rightarrow> string \<Rightarrow> error + UploadResponse"
  Download :: "string \<Rightarrow> error option"
  MkDir :: "string \<Rightarrow> error option"
  CreateDirectorySnapshot :: "'m store \<Rightarrow> error option \<times> 'm store"

text \<open>A procedure yields the events it causes, in order, next to its result; \<open>after\<close> puts
  the events of the statements before a call in front of the events of the call.\<close>

definition after :: "'e list \<Rightarrow> 'e list \<times> 's \<Rightarrow> 'e list \<times> 's" where
  "after evs r = (evs @ fst r, snd r)"

section \<open>The sync protocol client: \<^verbatim>\<open>postSnapshot\<close>\<close>

definition postSnapshot ::
  "'m env \<Rightarrow> 'm DirectoryMetadata option
    \<Rightarrow> (error + SyncActionMetadata option) \<times> 'm event list" where
  "postSnapshot env finalSnapshot =
     (let postURL = serverURL env @ ''/snapshot'';
          payload = \<lparr>ClientID = clientID env, FinalSnapshot = finalSnapshot\<rparr>;
          started = [Log LogPosting, Log (LogFinalSnapshot finalSnapshot)]
      in case json_Marshal env payload of
           Inl err \<Rightarrow> (Inl err, started @ [Log (LogMarshalFailed err)])
         | Inr jsonData \<Rightarrow>
             (case http_NewRequest env ''POST'' postURL jsonData of
                Some err \<Rightarrow> (Inl err, started @ [Log (LogRequestFailed err)])
              | None \<Rightarrow>
                  (let req = \<lparr>Method = ''POST'', URL = postURL, Body = jsonData,
                               Header = [(''Content-Type'', ''application/json'')]\<rparr>
                   in case http_Do env req of
                        Inl err \<Rightarrow> (Inl err, started @ [Call (HttpDo req), Log (LogDoFailed err)])
                      | Inr resp \<Rightarrow>
                          (case RespBody resp of
                             Inl err \<Rightarrow>
                               (Inl err,
                                started @ [Call (HttpDo req), Call ReadAll,
                                           Log (LogReadFailed err), Call BodyClose])
                           | Inr bodyBytes \<Rightarrow>
                               (case json_Unmarshal env bodyBytes of
                                  Inl err \<Rightarrow>
                                    (Inl err,
                                     started @ [Call (HttpDo req), Call ReadAll,
                                                Log (LogUnmarshalFailed err), Call BodyClose])
                                | Inr resp_decoded \<Rightarrow>
                                    (Inr (SyncActionMetadata resp_decoded),
                                     started @ [Call (HttpDo req), Call ReadAll,
                                                Call BodyClose]))))))"

section \<open>The action executor: \<^verbatim>\<open>processActions\<close>\<close>

text \<open>The body of the loop: the \<^verbatim>\<open>switch\<close> on the directive's action. No branch returns or
  breaks; an error of a capability is logged only.\<close>

definition dispatch :: "'m env \<Rightarrow> string \<Rightarrow> FileActionMetadata \<Rightarrow> 'm event list" where
  "dispatch env normalizedPath fileActionMetadata =
     Log (LogProcessingAction (Action fileActionMetadata) normalizedPath) #
     (if Action fileActionMetadata = ActionUpload then
        (let denormalizedPath = RelToAbsConvert env (syncDirectory env) normalizedPath
         in Call (UploadCall denormalizedPath (clientID env)) #
            (case Upload env denormalizedPath (clientID env) of
               Inl err \<Rightarrow> [Log (LogUploadFailed normalizedPath err)]
             | Inr uploadResponse \<Rightarrow>
                 [Log (LogUploaded normalizedPath (FileURL uploadResponse))]))
      else if Action fileActionMetadata = ActionDownload then
        Call (DownloadCall normalizedPath) #
        (case Download env normalizedPath of
           Some err \<Rightarrow> [Log (LogDownloadFailed normalizedPath err)]
         | None \<Rightarrow> [Log (LogDownloaded normalizedPath)])
      else if Action fileActionMetadata = ActionMkdir then
        (let denormalizedPath = RelToAbsConvert env (syncDirectory env) normalizedPath
         in Call (MkDirCall denormalizedPath) #
            (case MkDir env denormalizedPath of
               Some err \<Rightarrow> [Log (LogMkdirFailed normalizedPath err)]
             | None \<Rightarrow> [Log (LogMkdirOk normalizedPath)]))
      else [Log (LogUnknownAction (Action fileActionMetadata) normalizedPath)])"

text \<open>\<^verbatim>\<open>for normalizedPath, fileActionMetadata := range syncActionMetadata.Files\<close>.\<close>

fun rangeActions :: "'m env \<Rightarrow> (string \<times> FileActionMetadata) list \<Rightarrow> 'm event list" where
  "rangeActions env [] = []"
| "rangeActions env ((normalizedPath, fileActionMetadata) # rest) =
     dispatch env normalizedPath fileActionMetadata @ rangeActions env rest"

definition processActions ::
  "'m env \<Rightarrow> SyncActionMetadata option \<Rightarrow> 'm store \<Rightarrow> 'm event list \<times> 'm store" where
  "processActions env syncActionMetadata store =
     (case syncActionMetadata of
        None \<Rightarrow> ([Log LogNoActions], store)
      | Some plan \<Rightarrow>
          after (rangeActions env (ActionFiles plan) @
                 [Log LogCreatingSnapshot, Call CreateDirectorySnapshotCall])
            (case CreateDirectorySnapshot env store of
               (Some err, store') \<Rightarrow> ([Log (LogSnapshotFailed err)], store')
             | (None, store') \<Rightarrow> ([Log LogSnapshotOk], store')))"

section \<open>The cycle: \<^verbatim>\<open>main\<close>\<close>

text \<open>Lines 100 to 123 of \<^verbatim>\<open>main\<close>: diff if a last snapshot exists, submit, apply the plan.\<close>

definition main_reconcile ::
  "'m env \<Rightarrow> 'm DirectoryMetadata option \<Rightarrow> bool \<Rightarrow> 'm DirectoryMetadata option \<Rightarrow> 'm store
    \<Rightarrow> 'm event list \<times> 'm store" where
  "main_reconcile env lastSnapshot exists currentSnapshot store =
     (if exists then
        after [Log LogLastExists]
          (case processSnapshots lastSnapshot currentSnapshot of
             (Panics, evs) \<Rightarrow> (evs @ [Panic], store)
           | (Returns finalSnapshot, evs) \<Rightarrow>
               after evs
                 (case postSnapshot env (Some finalSnapshot) of
                    (Inl err, pevs) \<Rightarrow> (pevs @ [Log (LogError err)], store)
                  | (Inr syncActionMetadata, pevs) \<Rightarrow>
                      after (pevs @ [Log LogProcessingActions])
                        (processActions env syncActionMetadata store)))
      else
        after [Log LogLastMissing]
          (case postSnapshot env currentSnapshot of
             (Inl err, pevs) \<Rightarrow> (pevs @ [Log (LogError err)], store)
           | (Inr syncActionMetadata, pevs) \<Rightarrow>
               after (pevs @ [Log LogProcessingActions])
                 (processActions env syncActionMetadata store)))"

text \<open>Lines 65 to 98 of \<^verbatim>\<open>main\<close>: declare and purge the queue, read the last snapshot (its
  error is logged and nothing else), compute the current one.\<close>

definition main_cycle :: "'m env \<Rightarrow> 'm store \<Rightarrow> 'm event list \<times> 'm store" where
  "main_cycle env store =
     after [Call (DeclareQueueCall (queueName env))]
       (case DeclareQueue env (queueName env) of
          Some err \<Rightarrow> ([Log (RmqErrorDeclare err)], store)
        | None \<Rightarrow>
            after [Call (PurgeQueueCall (queueName env))]
              (case PurgeQueue env (queueName env) of
                 Inl err \<Rightarrow> ([Log (LogPurgeError err)], store)
               | Inr purgedAmount \<Rightarrow>
                   after [Log (LogPurging purgedAmount), Log LogGettingLast,
                          Call GetLastSnapshotCall]
                     (case GetLastSnapshot env of
                        (lastSnapshot, exists, err) \<Rightarrow>
                          after ((case err of Some e \<Rightarrow> [Log (LogError e)] | None \<Rightarrow> []) @
                                 [Log (LogLastStruct lastSnapshot), Log LogGettingCurrent,
                                  Call GetLocalMetadataCall])
                            (case GetLocalMetadata env of
                               (currentSnapshot, Some e) \<Rightarrow> ([Log (LogError e)], store)
                             | (currentSnapshot, None) \<Rightarrow>
                                 after [Log (LogCurrentStruct currentSnapshot)]
                                   (main_reconcile env lastSnapshot exists currentSnapshot
                                      store)))))"

text \<open>\<^verbatim>\<open>main\<close>: configuration, connection, the cycle, and the deferred closes, which run in
  reverse order on every way out, a panic included.\<close>

definition main :: "'m env \<Rightarrow> 'm store \<Rightarrow> 'm event list \<times> 'm store" where
  "main env store =
     after ((case godotenv_Load env of Some err \<Rightarrow> [Log (LogNoEnv err)] | None \<Rightarrow> []) @
            [Log LogStarting, Call (NewConnectionCall (address env))])
       (case NewConnection env of
          Some err \<Rightarrow> ([Log RmqErrorConnection, Call CloseConnections], store)
        | None \<Rightarrow>
            (case main_cycle env store of
               (evs, store') \<Rightarrow>
                 (evs @ [Call ManagementClose, Call ConnectionClose, Call CloseConnections],
                  store')))"


section \<open>Vocabulary for runs\<close>

text \<open>A directive call is a call of one of the three capabilities of the executor.\<close>

fun isDirectiveCall :: "'m event \<Rightarrow> bool" where
  "isDirectiveCall (Call (UploadCall _ _)) = True"
| "isDirectiveCall (Call (DownloadCall _)) = True"
| "isDirectiveCall (Call (MkDirCall _)) = True"
| "isDirectiveCall _ = False"

text \<open>The five ways in which \<^verbatim>\<open>postSnapshot\<close> fails, each with its own log line:
  serialization, building the request, transport, reading the body, decoding the body.\<close>

fun isSubmitFailure :: "'m event \<Rightarrow> bool" where
  "isSubmitFailure (Log (LogMarshalFailed _)) = True"
| "isSubmitFailure (Log (LogRequestFailed _)) = True"
| "isSubmitFailure (Log (LogDoFailed _)) = True"
| "isSubmitFailure (Log (LogReadFailed _)) = True"
| "isSubmitFailure (Log (LogUnmarshalFailed _)) = True"
| "isSubmitFailure _ = False"

text \<open>What a cycle does once the queue is declared and purged: it reads the snapshots,
  submits, runs directives and captures the new snapshot.\<close>

fun isCycleWork :: "'m event \<Rightarrow> bool" where
  "isCycleWork (Call GetLastSnapshotCall) = True"
| "isCycleWork (Call GetLocalMetadataCall) = True"
| "isCycleWork (Call (HttpDo _)) = True"
| "isCycleWork (Call CreateDirectorySnapshotCall) = True"
| "isCycleWork e = isDirectiveCall e"

text \<open>A concrete environment for instantiating the theorems: every collaborator succeeds,
  except that the upload of \<^verbatim>\<open>/sync/a.txt\<close> fails; no last snapshot exists, the directory
  holds one file, and the server answers with a null plan.\<close>

definition sampleEnv :: "nat env" where
  "sampleEnv =
     \<lparr>clientID = ''client-1'', address = ''amqp://localhost'', queueName = ''q1'',
      serverURL = ''http://server'', syncDirectory = ''/sync'',
      godotenv_Load = None, NewConnection = None,
      DeclareQueue = (\<lambda>_. None), PurgeQueue = (\<lambda>_. Inr 0),
      GetLastSnapshot = (None, False, None),
      GetLocalMetadata = (Some \<lparr>Files = [(''a.txt'', \<lparr>Status = ''present'', Meta = 1\<rparr>)]\<rparr>, None),
      json_Marshal = (\<lambda>_. Inr ''payload''),
      http_NewRequest = (\<lambda>_ _ _. None),
      http_Do = (\<lambda>_. Inr \<lparr>RespBody = Inr ''body''\<rparr>),
      json_Unmarshal = (\<lambda>_. Inr \<lparr>SyncActionMetadata = None\<rparr>),
      RelToAbsConvert = (\<lambda>dir p. dir @ ''/'' @ p),
      Upload = (\<lambda>p _. if p = ''/sync/a.txt'' then Inl ''upload refused''
                        else Inr \<lparr>FileURL = ''http://server/files''\<rparr>),
      Download = (\<lambda>_. None), MkDir = (\<lambda>_. None),
      CreateDirectorySnapshot =
        (\<lambda>_. (None, Some \<lparr>Files = [(''a.txt'', \<lparr>Status = ''present'', Meta = 1\<rparr>)]\<rparr>))\<rparr>"

text \<open>The events \<^verbatim>\<open>postSnapshot\<close> can cause, and the events \<^verbatim>\<open>processActions\<close> can cause.\<close>

fun isProtocolEvent :: "'m event \<Rightarrow> bool" where
  "isProtocolEvent (Log LogPosting) = True"
| "isProtocolEvent (Log (LogFinalSnapshot _)) = True"
| "isProtocolEvent (Call (HttpDo _)) = True"
| "isProtocolEvent (Call ReadAll) = True"
| "isProtocolEvent (Call BodyClose) = True"
| "isProtocolEvent e = isSubmitFailure e"

fun isExecutorEvent :: "'m event \<Rightarrow> bool" where
  "isExecutorEvent (Log LogNoActions) = True"
| "isExecutorEvent (Log (LogProcessingAction _ _)) = True"
| "isExecutorEvent (Log (LogUploadFailed _ _)) = True"
| "isExecutorEvent (Log (LogUploaded _ _)) = True"
| "isExecutorEvent (Log (LogDownloadFailed _ _)) = True"
| "isExecutorEvent (Log (LogDownloaded _)) = True"
| "isExecutorEvent (Log (LogMkdirFailed _ _)) = True"
| "isExecutorEvent (Log (LogMkdirOk _)) = True"
| "isExecutorEvent (Log (LogUnknownAction _ _)) = True"
| "isExecutorEvent (Log LogCreatingSnapshot) = True"
| "isExecutorEvent (Log (LogSnapshotFailed _)) = True"
| "isExecutorEvent (Log LogSnapshotOk) = True"
| "isExecutorEvent (Call CreateDirectorySnapshotCall) = True"
| "isExecutorEvent e = isDirectiveCall e"

text \<open>A plan with a failing upload, an unrecognised action and a download.\<close>

definition samplePlan :: SyncActionMetadata where
  "samplePlan =
     \<lparr>ActionFiles = [(''a.txt'', \<lparr>Action = ActionUpload\<rparr>),
                     (''b.txt'', \<lparr>Action = ''delete''\<rparr>),
                     (''c.txt'', \<lparr>Action = ActionDownload\<rparr>)]\<rparr>"

section \<open>Properties of the diff engine\<close>

lemma rangeLast_paths:
  "fst ` set (Files (snd (rangeLast es cur fin))) =
     fst ` set (Files fin) \<union> {p \<in> fst ` set es. map_of (Files cur) p = None}"
  by (induction es cur fin rule: rangeLast.induct)
     (auto simp: AList.dom_update case_prod_unfold split: option.splits)

lemma deleted_at_update:
  "deleted_at (s\<lparr>Files := AList.update k v (Files s)\<rparr>) p =
     (if p = k then Status v = StatusDeleted else deleted_at s p)"
  by (simp add: deleted_at_def AList.update_conv')

lemma deleted_at_absent: "map_of (Files s) p = None \<Longrightarrow> \<not> deleted_at s p"
  by (simp add: deleted_at_def)

lemma rangeLast_deleted:
  "deleted_at (snd (rangeLast es cur fin)) p =
     (if p \<in> fst ` set es \<and> map_of (Files cur) p = None then True else deleted_at fin p)"
proof (induction es cur fin rule: rangeLast.induct)
  case (1 cur fin)
  then show ?case by simp
next
  case (2 path fm rest cur fin)
  show ?case
  proof (cases "map_of (Files cur) path")
    case None
    with 2 show ?thesis
      by (auto simp: deleted_at_update case_prod_unfold)
  next
    case (Some a)
    with 2 show ?thesis by auto
  qed
qed

lemma rangeLast_unique:
  "unique_keys (Files fin) \<Longrightarrow> unique_keys (Files (snd (rangeLast es cur fin)))"
  by (induction es cur fin rule: rangeLast.induct)
     (auto simp: unique_keys_def AList.distinct_update case_prod_unfold split: option.splits)

lemma rangeCurrent_paths:
  "fst ` set (Files (rangeCurrent es fin)) = fst ` set (Files fin) \<union> fst ` set es"
  by (induction es fin rule: rangeCurrent.induct) (auto simp: AList.dom_update)

lemma rangeCurrent_unique:
  "unique_keys (Files fin) \<Longrightarrow> unique_keys (Files (rangeCurrent es fin))"
  by (induction es fin rule: rangeCurrent.induct)
     (auto simp: unique_keys_def AList.distinct_update)

lemma rangeCurrent_lookup:
  "unique_keys es \<Longrightarrow>
   map_of (Files (rangeCurrent es fin)) p =
     (case map_of es p of None \<Rightarrow> map_of (Files fin) p | Some fm \<Rightarrow> Some fm)"
proof (induction es fin rule: rangeCurrent.induct)
  case (1 fin)
  then show ?case by simp
next
  case (2 path fm rest fin)
  then have "map_of rest path = None"
    by (auto simp: unique_keys_def map_of_eq_None_iff)
  with 2 show ?case
    by (auto simp: unique_keys_def AList.update_conv' split: option.splits)
qed

lemma map_of_None_paths: "map_of (Files s) p = None \<longleftrightarrow> p \<notin> paths s"
  by (simp add: paths_def map_of_eq_None_iff)

lemma processSnapshots_returns:
  "processSnapshots (Some l) (Some c) =
     (Returns (rangeCurrent (Files c) (snd (rangeLast (Files l) c \<lparr>Files = []\<rparr>))),
      fst (rangeLast (Files l) c \<lparr>Files = []\<rparr>))"
  by (simp add: processSnapshots_def split: prod.splits)

lemma deleted_at_rangeCurrent:
  assumes "unique_keys es"
  shows "deleted_at (rangeCurrent es fin) p =
     (if p \<in> fst ` set es then deleted_at \<lparr>Files = es\<rparr> p else deleted_at fin p)"
proof (cases "map_of es p")
  case None
  then have "p \<notin> fst ` set es"
    by (simp add: map_of_eq_None_iff)
  with None show ?thesis using assms
    by (simp add: deleted_at_def rangeCurrent_lookup)
next
  case (Some fm)
  then have "p \<in> fst ` set es"
    by (metis map_of_eq_None_iff option.distinct(1))
  with Some show ?thesis using assms
    by (simp add: deleted_at_def rangeCurrent_lookup)
qed

lemma merged_deleted:
  assumes "unique_keys (Files c)"
  shows "deleted_at (rangeCurrent (Files c) (snd (rangeLast (Files l) c \<lparr>Files = []\<rparr>))) p
     \<longleftrightarrow> (p \<in> paths l \<and> p \<notin> paths c) \<or> deleted_at c p"
proof (cases "p \<in> paths c")
  case True
  then show ?thesis using assms
    by (simp add: deleted_at_rangeCurrent paths_def) (simp add: deleted_at_def)
next
  case False
  then have c: "map_of (Files c) p = None"
    by (simp add: paths_def map_of_eq_None_iff)
  then have "\<not> deleted_at c p"
    by (rule deleted_at_absent)
  moreover note c
  ultimately show ?thesis using False c assms
    by (simp add: deleted_at_rangeCurrent rangeLast_deleted paths_def)
      (simp add: deleted_at_def)
qed


lemma rangeLast_logs:
  "Log (LogTombstone p) \<in> set (fst (rangeLast es cur fin)) \<Longrightarrow> map_of (Files cur) p = None"
  by (induction es cur fin rule: rangeLast.induct)
     (auto simp: case_prod_unfold split: option.splits)

text \<open>Claim C1, as amended. For every last snapshot and every current snapshot (a map, so
  each path is a key once), \<^verbatim>\<open>processSnapshots\<close> returns, and a path has status deleted in
  the merged snapshot if and only if it is a key of last and not a key of current, or
  current's own record for it already has status deleted (the second loop copies current's
  records as they are). So a tombstone for a path that current lacks always comes from
  last, and when no record of current is marked deleted the tombstones are exactly the
  paths of last that current lacks.\<close>

theorem tombstone_characterisation:
  assumes "unique_keys (Files currentSnapshot)"
  shows "\<exists>merged evs.
           processSnapshots (Some lastSnapshot) (Some currentSnapshot) = (Returns merged, evs) \<and>
           (deleted_at merged p \<longleftrightarrow>
              (p \<in> paths lastSnapshot \<and> p \<notin> paths currentSnapshot) \<or>
              deleted_at currentSnapshot p)"
  using merged_deleted [OF assms] by (simp add: processSnapshots_returns)

text \<open>The theorem at the example of the spec: last holds \<^verbatim>\<open>a.txt\<close> and \<^verbatim>\<open>b.txt\<close>, current
  holds a modified \<^verbatim>\<open>b.txt\<close> and \<^verbatim>\<open>c.txt\<close>; only \<^verbatim>\<open>a.txt\<close> is deleted in the result.\<close>

theorem tombstone_characterisation_witness:
  "unique_keys
     [(''b.txt'', \<lparr>Status = ''present'', Meta = 7::nat\<rparr>),
      (''c.txt'', \<lparr>Status = ''present'', Meta = 3\<rparr>)] \<and>
   (\<exists>merged evs.
      processSnapshots
        (Some \<lparr>Files = [(''a.txt'', \<lparr>Status = ''present'', Meta = 1::nat\<rparr>),
                         (''b.txt'', \<lparr>Status = ''present'', Meta = 2\<rparr>)]\<rparr>)
        (Some \<lparr>Files = [(''b.txt'', \<lparr>Status = ''present'', Meta = 7\<rparr>),
                         (''c.txt'', \<lparr>Status = ''present'', Meta = 3\<rparr>)]\<rparr>)
        = (Returns merged, evs) \<and>
      deleted_at merged ''a.txt'' \<and> \<not> deleted_at merged ''b.txt'' \<and>
      \<not> deleted_at merged ''c.txt'')"
proof -
  let ?l = "\<lparr>Files = [(''a.txt'', \<lparr>Status = ''present'', Meta = 1::nat\<rparr>),
                         (''b.txt'', \<lparr>Status = ''present'', Meta = 2\<rparr>)]\<rparr>"
  let ?c = "\<lparr>Files = [(''b.txt'', \<lparr>Status = ''present'', Meta = 7::nat\<rparr>),
                         (''c.txt'', \<lparr>Status = ''present'', Meta = 3\<rparr>)]\<rparr>"
  have u: "unique_keys (Files ?c)"
    by (simp add: unique_keys_def)
  have "processSnapshots (Some ?l) (Some ?c) =
      (Returns (rangeCurrent (Files ?c) (snd (rangeLast (Files ?l) ?c \<lparr>Files = []\<rparr>))),
       fst (rangeLast (Files ?l) ?c \<lparr>Files = []\<rparr>))"
    by (rule processSnapshots_returns)
  with tombstone_characterisation [OF u, of ?l "''a.txt''"]
    tombstone_characterisation [OF u, of ?l "''b.txt''"]
    tombstone_characterisation [OF u, of ?l "''c.txt''"]
  show ?thesis using u
    by (simp add: paths_def) (simp add: deleted_at_def StatusDeleted_def)
qed

text \<open>Claim C1 as stated fails: with an empty last snapshot and a current snapshot whose
  record for \<^verbatim>\<open>a.txt\<close> has status deleted, the merged snapshot holds \<^verbatim>\<open>a.txt\<close> with status
  deleted although \<^verbatim>\<open>a.txt\<close> is not a key of last.\<close>

theorem tombstone_only_from_last_counterexample:
  "processSnapshots
     (Some \<lparr>Files = []\<rparr>)
     (Some \<lparr>Files = [(''a.txt'', \<lparr>Status = StatusDeleted, Meta = 1::nat\<rparr>)]\<rparr>)
     = (Returns \<lparr>Files = [(''a.txt'', \<lparr>Status = StatusDeleted, Meta = 1\<rparr>)]\<rparr>, []) \<and>
   deleted_at \<lparr>Files = [(''a.txt'', \<lparr>Status = StatusDeleted, Meta = 1::nat\<rparr>)]\<rparr> ''a.txt'' \<and>
   ''a.txt'' \<notin> paths (\<lparr>Files = []\<rparr> :: nat DirectoryMetadata)"
  by (simp add: processSnapshots_def deleted_at_def paths_def)

text \<open>Claim C2, as amended. For a path that is a key of both snapshots, the merged snapshot
  maps it to exactly current's record, whatever last's record is; the first loop writes
  nothing for the path (no tombstone is logged for it), and the result is marked deleted
  only when current's own record is.\<close>

theorem override_precedence:
  assumes "p \<in> paths lastSnapshot" and "p \<in> paths currentSnapshot"
    and "unique_keys (Files currentSnapshot)"
  shows "\<exists>merged evs.
           processSnapshots (Some lastSnapshot) (Some currentSnapshot) = (Returns merged, evs) \<and>
           record_of merged p = record_of currentSnapshot p \<and>
           (deleted_at merged p \<longleftrightarrow> deleted_at currentSnapshot p) \<and>
           Log (LogTombstone p) \<notin> set evs"
proof -
  let ?tomb = "rangeLast (Files lastSnapshot) currentSnapshot \<lparr>Files = []\<rparr>"
  let ?merged = "rangeCurrent (Files currentSnapshot) (snd ?tomb)"
  from assms(2) obtain fm where fm: "map_of (Files currentSnapshot) p = Some fm"
    by (cases "map_of (Files currentSnapshot) p") (auto simp: paths_def map_of_eq_None_iff)
  then have rec: "map_of (Files ?merged) p = map_of (Files currentSnapshot) p"
    using assms(3) by (simp add: rangeCurrent_lookup)
  then have del: "deleted_at ?merged p \<longleftrightarrow> deleted_at currentSnapshot p"
    by (simp add: deleted_at_def)
  have "Log (LogTombstone p) \<notin> set (fst ?tomb)"
    using rangeLast_logs [of p "Files lastSnapshot" currentSnapshot] fm by auto
  with rec del show ?thesis
    by (simp add: processSnapshots_returns record_of_def)
qed

text \<open>The theorem at the example of the spec: \<^verbatim>\<open>b.txt\<close> is in both snapshots and the result
  holds current's record for it.\<close>

theorem override_precedence_witness:
  "''b.txt'' \<in> paths \<lparr>Files = [(''a.txt'', \<lparr>Status = ''present'', Meta = 1::nat\<rparr>),
                                 (''b.txt'', \<lparr>Status = ''present'', Meta = 2\<rparr>)]\<rparr> \<and>
   ''b.txt'' \<in> paths \<lparr>Files = [(''b.txt'', \<lparr>Status = ''present'', Meta = 7::nat\<rparr>),
                                 (''c.txt'', \<lparr>Status = ''present'', Meta = 3\<rparr>)]\<rparr> \<and>
   (\<exists>merged evs.
      processSnapshots
        (Some \<lparr>Files = [(''a.txt'', \<lparr>Status = ''present'', Meta = 1::nat\<rparr>),
                         (''b.txt'', \<lparr>Status = ''present'', Meta = 2\<rparr>)]\<rparr>)
        (Some \<lparr>Files = [(''b.txt'', \<lparr>Status = ''present'', Meta = 7\<rparr>),
                         (''c.txt'', \<lparr>Status = ''present'', Meta = 3\<rparr>)]\<rparr>)
        = (Returns merged, evs) \<and>
      record_of merged ''b.txt'' = Some \<lparr>Status = ''present'', Meta = 7\<rparr>)"
proof -
  let ?l = "\<lparr>Files = [(''a.txt'', \<lparr>Status = ''present'', Meta = 1::nat\<rparr>),
                         (''b.txt'', \<lparr>Status = ''present'', Meta = 2\<rparr>)]\<rparr>"
  let ?c = "\<lparr>Files = [(''b.txt'', \<lparr>Status = ''present'', Meta = 7::nat\<rparr>),
                         (''c.txt'', \<lparr>Status = ''present'', Meta = 3\<rparr>)]\<rparr>"
  have u: "unique_keys (Files ?c)"
    by (simp add: unique_keys_def)
  have l: "''b.txt'' \<in> paths ?l" and c: "''b.txt'' \<in> paths ?c"
    by (simp_all add: paths_def)
  from override_precedence [OF l c u] l c show ?thesis
    by (auto simp: record_of_def)
qed

text \<open>Claim C2 as stated fails in its last clause: when current's record for a path of both
  snapshots has status deleted, the merged snapshot maps the path to that record, which is
  a tombstone.\<close>

theorem override_never_tombstone_counterexample:
  "processSnapshots
     (Some \<lparr>Files = [(''a.txt'', \<lparr>Status = ''present'', Meta = 1::nat\<rparr>)]\<rparr>)
     (Some \<lparr>Files = [(''a.txt'', \<lparr>Status = StatusDeleted, Meta = 1\<rparr>)]\<rparr>)
     = (Returns \<lparr>Files = [(''a.txt'', \<lparr>Status = StatusDeleted, Meta = 1\<rparr>)]\<rparr>, []) \<and>
   ''a.txt'' \<in> paths \<lparr>Files = [(''a.txt'', \<lparr>Status = ''present'', Meta = 1::nat\<rparr>)]\<rparr> \<and>
   ''a.txt'' \<in> paths \<lparr>Files = [(''a.txt'', \<lparr>Status = StatusDeleted, Meta = 1::nat\<rparr>)]\<rparr> \<and>
   deleted_at \<lparr>Files = [(''a.txt'', \<lparr>Status = StatusDeleted, Meta = 1::nat\<rparr>)]\<rparr> ''a.txt''"
  by (simp add: processSnapshots_def deleted_at_def paths_def)

text \<open>Claim C3. For every pair of snapshots \<^verbatim>\<open>processSnapshots\<close> returns, the paths of the
  merged snapshot are the union of the paths of last and of current, and the merged map
  holds each path once.\<close>

theorem union_completeness:
  "\<exists>merged evs.
     processSnapshots (Some lastSnapshot) (Some currentSnapshot) = (Returns merged, evs) \<and>
     paths merged = paths lastSnapshot \<union> paths currentSnapshot \<and>
     unique_keys (Files merged)"
proof -
  let ?tomb = "rangeLast (Files lastSnapshot) currentSnapshot \<lparr>Files = []\<rparr>"
  have "unique_keys (Files (\<lparr>Files = []\<rparr> :: 'a DirectoryMetadata))"
    by (simp add: unique_keys_def)
  then have "unique_keys (Files (rangeCurrent (Files currentSnapshot) (snd ?tomb)))"
    by (intro rangeCurrent_unique rangeLast_unique)
  moreover have "paths (rangeCurrent (Files currentSnapshot) (snd ?tomb)) =
      paths lastSnapshot \<union> paths currentSnapshot"
    by (auto simp: paths_def rangeCurrent_paths rangeLast_paths map_of_eq_None_iff)
  ultimately show ?thesis
    by (simp add: processSnapshots_returns)
qed

text \<open>The theorem at the example of the spec.\<close>

theorem union_completeness_witness:
  "\<exists>merged evs.
      processSnapshots
        (Some \<lparr>Files = [(''a.txt'', \<lparr>Status = ''present'', Meta = 1::nat\<rparr>),
                         (''b.txt'', \<lparr>Status = ''present'', Meta = 2\<rparr>)]\<rparr>)
        (Some \<lparr>Files = [(''b.txt'', \<lparr>Status = ''present'', Meta = 7\<rparr>),
                         (''c.txt'', \<lparr>Status = ''present'', Meta = 3\<rparr>)]\<rparr>)
        = (Returns merged, evs) \<and>
      paths merged = {''a.txt'', ''b.txt'', ''c.txt''} \<and> unique_keys (Files merged)"
  using union_completeness
    [of "\<lparr>Files = [(''a.txt'', \<lparr>Status = ''present'', Meta = 1::nat\<rparr>),
                         (''b.txt'', \<lparr>Status = ''present'', Meta = 2\<rparr>)]\<rparr>"
        "\<lparr>Files = [(''b.txt'', \<lparr>Status = ''present'', Meta = 7\<rparr>),
                         (''c.txt'', \<lparr>Status = ''present'', Meta = 3\<rparr>)]\<rparr>"]
  by (auto simp: paths_def)

text \<open>The example of the spec, evaluated: the tombstone keeps the metadata of last.\<close>

lemma spec_example:
  "processSnapshots
        (Some \<lparr>Files = [(''a.txt'', \<lparr>Status = ''present'', Meta = 1::nat\<rparr>),
                         (''b.txt'', \<lparr>Status = ''present'', Meta = 2\<rparr>)]\<rparr>)
        (Some \<lparr>Files = [(''b.txt'', \<lparr>Status = ''present'', Meta = 7\<rparr>),
                         (''c.txt'', \<lparr>Status = ''present'', Meta = 3\<rparr>)]\<rparr>)
   = (Returns \<lparr>Files = [(''a.txt'', \<lparr>Status = StatusDeleted, Meta = 1\<rparr>),
                         (''b.txt'', \<lparr>Status = ''present'', Meta = 7\<rparr>),
                         (''c.txt'', \<lparr>Status = ''present'', Meta = 3\<rparr>)]\<rparr>,
      [Log (LogTombstone ''a.txt'')])"
  by (simp add: processSnapshots_def)

section \<open>Properties of runs\<close>

subsection \<open>The events of each procedure\<close>

lemma fst_after [simp]: "fst (after evs r) = evs @ fst r"
  by (simp add: after_def)

lemma snd_after [simp]: "snd (after evs r) = snd r"
  by (simp add: after_def)

lemma rangeLast_events:
  "e \<in> set (fst (rangeLast es cur fin)) \<Longrightarrow> \<exists>p. e = Log (LogTombstone p)"
  by (induction es cur fin rule: rangeLast.induct)
     (auto simp: case_prod_unfold split: option.splits)

lemma processSnapshots_events:
  "e \<in> set (snd (processSnapshots l c)) \<Longrightarrow> \<exists>p. e = Log (LogTombstone p)"
  by (auto simp: processSnapshots_def case_prod_unfold split: option.splits
           dest: rangeLast_events)

lemma processSnapshots_quiet:
  "\<not> list_ex isSubmitFailure (snd (processSnapshots l c))"
  "\<not> list_ex isCycleWork (snd (processSnapshots l c))"
  "\<not> list_ex isDirectiveCall (snd (processSnapshots l c))"
  "Call CreateDirectorySnapshotCall \<notin> set (snd (processSnapshots l c))"
  by (auto simp: list_ex_iff dest: processSnapshots_events)

lemma postSnapshot_events:
  "e \<in> set (snd (postSnapshot env snap)) \<Longrightarrow> isProtocolEvent e"
  by (auto simp: postSnapshot_def Let_def split: sum.splits option.splits)

lemma postSnapshot_quiet:
  "\<not> list_ex isDirectiveCall (snd (postSnapshot env snap))"
  "Call CreateDirectorySnapshotCall \<notin> set (snd (postSnapshot env snap))"
  by (simp_all add: postSnapshot_def Let_def split: sum.splits option.splits)

lemma postSnapshot_failure_logged:
  "isl (fst (postSnapshot env snap)) \<longleftrightarrow> list_ex isSubmitFailure (snd (postSnapshot env snap))"
  by (simp add: postSnapshot_def Let_def split: sum.splits option.splits)

lemma postSnapshot_final_log:
  "Log (LogFinalSnapshot s) \<in> set (snd (postSnapshot env snap)) \<longleftrightarrow> s = snap"
  by (auto simp: postSnapshot_def Let_def split: sum.splits option.splits)

lemma postSnapshot_http:
  "Call (HttpDo req) \<in> set (snd (postSnapshot env snap)) \<Longrightarrow>
     json_Marshal env \<lparr>ClientID = clientID env, FinalSnapshot = snap\<rparr> = Inr (Body req)"
  by (auto simp: postSnapshot_def Let_def split: sum.splits option.splits)

lemma postSnapshot_sends:
  "json_Marshal env \<lparr>ClientID = clientID env, FinalSnapshot = snap\<rparr> = Inr jsonData \<Longrightarrow>
   http_NewRequest env ''POST'' (serverURL env @ ''/snapshot'') jsonData = None \<Longrightarrow>
   Call (HttpDo \<lparr>Method = ''POST'', URL = serverURL env @ ''/snapshot'', Body = jsonData,
                  Header = [(''Content-Type'', ''application/json'')]\<rparr>)
     \<in> set (snd (postSnapshot env snap))"
  by (auto simp: postSnapshot_def Let_def split: sum.splits option.splits)

lemma dispatch_events: "e \<in> set (dispatch env p fam) \<Longrightarrow> isExecutorEvent e"
  by (auto simp: dispatch_def Let_def split: sum.splits option.splits if_splits)

lemma rangeActions_events: "e \<in> set (rangeActions env ds) \<Longrightarrow> isExecutorEvent e"
  by (induction ds) (auto dest: dispatch_events)

lemma processActions_events:
  "e \<in> set (fst (processActions env sam store)) \<Longrightarrow> isExecutorEvent e"
  by (auto simp: processActions_def split: option.splits prod.splits dest: rangeActions_events)

lemma dispatch_no_failure: "\<not> list_ex isSubmitFailure (dispatch env p fam)"
  by (simp add: dispatch_def Let_def split: sum.splits option.splits)

lemma rangeActions_no_failure: "\<not> list_ex isSubmitFailure (rangeActions env ds)"
  by (induction ds) (auto simp: dispatch_no_failure)

lemma processActions_no_failure:
  "\<not> list_ex isSubmitFailure (fst (processActions env sam store))"
  by (simp add: processActions_def rangeActions_no_failure split: option.splits prod.splits)

lemma rangeActions_append:
  "rangeActions env (xs @ ys) = rangeActions env xs @ rangeActions env ys"
  by (induction xs) auto

lemma actions_distinct:
  "ActionUpload \<noteq> ActionDownload" "ActionUpload \<noteq> ActionMkdir" "ActionDownload \<noteq> ActionMkdir"
  by (simp_all add: ActionUpload_def ActionDownload_def ActionMkdir_def)

lemma dispatch_attempts:
  "Action fam = ActionUpload \<Longrightarrow>
     Call (UploadCall (RelToAbsConvert env (syncDirectory env) p) (clientID env))
       \<in> set (dispatch env p fam)"
  "Action fam = ActionDownload \<Longrightarrow> Call (DownloadCall p) \<in> set (dispatch env p fam)"
  "Action fam = ActionMkdir \<Longrightarrow>
     Call (MkDirCall (RelToAbsConvert env (syncDirectory env) p)) \<in> set (dispatch env p fam)"
  using actions_distinct by (simp_all add: dispatch_def Let_def)

lemma rangeActions_contains:
  "(p, fam) \<in> set ds \<Longrightarrow> set (dispatch env p fam) \<subseteq> set (rangeActions env ds)"
  by (induction ds) auto

lemma processActions_plan:
  "\<exists>res store'.
     processActions env (Some plan) store =
       (rangeActions env (ActionFiles plan) @
          [Log LogCreatingSnapshot, Call CreateDirectorySnapshotCall, res], store') \<and>
     (res = Log LogSnapshotOk \<or> (\<exists>err. res = Log (LogSnapshotFailed err)))"
  by (cases "CreateDirectorySnapshot env store")
     (auto simp: processActions_def after_def split: option.splits)

subsection \<open>The action executor\<close>

text \<open>Claim C4, as amended. With a nil plan \<^verbatim>\<open>processActions\<close> logs that there is nothing to do
  and returns: no upload, download or mkdir, and also no snapshot capture; the persisted
  last snapshot stays as it was.\<close>

theorem nil_plan_skips_snapshot:
  "processActions env None store = ([Log LogNoActions], store)"
  by (simp add: processActions_def)

text \<open>The theorem at the sample environment.\<close>

theorem nil_plan_skips_snapshot_witness:
  "processActions sampleEnv None None = ([Log LogNoActions], None)"
  using nil_plan_skips_snapshot [of sampleEnv None] .

text \<open>Claim C4 as stated fails: with a nil plan \<^verbatim>\<open>CreateDirectorySnapshot\<close> is not called and
  the store stays empty, although in the same environment a plan without directives does
  capture and persist a snapshot.\<close>

theorem nil_plan_refresh_counterexample:
  "Call CreateDirectorySnapshotCall \<notin> set (fst (processActions sampleEnv None None)) \<and>
   snd (processActions sampleEnv None None) = None \<and>
   processActions sampleEnv (Some \<lparr>ActionFiles = []\<rparr>) None =
     ([Log LogCreatingSnapshot, Call CreateDirectorySnapshotCall, Log LogSnapshotOk],
      Some \<lparr>Files = [(''a.txt'', \<lparr>Status = ''present'', Meta = 1\<rparr>)]\<rparr>)"
  by (simp add: processActions_def sampleEnv_def after_def)

text \<open>Claim C7. Whatever the capabilities answer (so also when the directive of some path
  fails), \<^verbatim>\<open>processActions\<close> on a plan calls the capability of every directive of the plan
  with a recognised action, and only then captures the new snapshot: the run is the
  directives' events followed by the capture and its one log line.\<close>

theorem failures_do_not_stop_plan:
  "\<exists>pre res store'.
     processActions env (Some plan) store =
       (pre @ [Log LogCreatingSnapshot, Call CreateDirectorySnapshotCall, res], store') \<and>
     (res = Log LogSnapshotOk \<or> (\<exists>err. res = Log (LogSnapshotFailed err))) \<and>
     (\<forall>(p, fam) \<in> set (ActionFiles plan).
        (Action fam = ActionUpload \<longrightarrow>
           Call (UploadCall (RelToAbsConvert env (syncDirectory env) p) (clientID env)) \<in> set pre) \<and>
        (Action fam = ActionDownload \<longrightarrow> Call (DownloadCall p) \<in> set pre) \<and>
        (Action fam = ActionMkdir \<longrightarrow>
           Call (MkDirCall (RelToAbsConvert env (syncDirectory env) p)) \<in> set pre))"
proof -
  from processActions_plan [of env plan store] obtain res store' where
    run: "processActions env (Some plan) store =
       (rangeActions env (ActionFiles plan) @
          [Log LogCreatingSnapshot, Call CreateDirectorySnapshotCall, res], store')"
    and res: "res = Log LogSnapshotOk \<or> (\<exists>err. res = Log (LogSnapshotFailed err))"
    by blast
  have "\<forall>(p, fam) \<in> set (ActionFiles plan).
        (Action fam = ActionUpload \<longrightarrow>
           Call (UploadCall (RelToAbsConvert env (syncDirectory env) p) (clientID env))
             \<in> set (rangeActions env (ActionFiles plan))) \<and>
        (Action fam = ActionDownload \<longrightarrow>
           Call (DownloadCall p) \<in> set (rangeActions env (ActionFiles plan))) \<and>
        (Action fam = ActionMkdir \<longrightarrow>
           Call (MkDirCall (RelToAbsConvert env (syncDirectory env) p))
             \<in> set (rangeActions env (ActionFiles plan)))"
    using rangeActions_contains [of _ _ "ActionFiles plan" env] dispatch_attempts [where env = env]
    by blast
  with run res show ?thesis by blast
qed

text \<open>The theorem at the sample plan: the upload of \<^verbatim>\<open>a.txt\<close> fails, the download of
  \<^verbatim>\<open>c.txt\<close> is still called, and the snapshot is captured after both.\<close>

theorem failures_do_not_stop_plan_witness:
  "Upload sampleEnv ''/sync/a.txt'' ''client-1'' = Inl ''upload refused'' \<and>
   (\<exists>pre res store'.
      processActions sampleEnv (Some samplePlan) None =
        (pre @ [Log LogCreatingSnapshot, Call CreateDirectorySnapshotCall, res], store') \<and>
      Call (UploadCall ''/sync/a.txt'' ''client-1'') \<in> set pre \<and>
      Call (DownloadCall ''c.txt'') \<in> set pre)"
proof -
  from failures_do_not_stop_plan [of sampleEnv samplePlan None] obtain pre res store' where
    run: "processActions sampleEnv (Some samplePlan) None =
        (pre @ [Log LogCreatingSnapshot, Call CreateDirectorySnapshotCall, res], store')"
    and calls: "\<forall>(p, fam) \<in> set (ActionFiles samplePlan).
        (Action fam = ActionUpload \<longrightarrow>
           Call (UploadCall (RelToAbsConvert sampleEnv (syncDirectory sampleEnv) p)
                   (clientID sampleEnv)) \<in> set pre) \<and>
        (Action fam = ActionDownload \<longrightarrow> Call (DownloadCall p) \<in> set pre) \<and>
        (Action fam = ActionMkdir \<longrightarrow>
           Call (MkDirCall (RelToAbsConvert sampleEnv (syncDirectory sampleEnv) p)) \<in> set pre)"
    by blast
  from calls have "Call (UploadCall ''/sync/a.txt'' ''client-1'') \<in> set pre"
    and "Call (DownloadCall ''c.txt'') \<in> set pre"
    by (simp_all add: samplePlan_def sampleEnv_def)
  moreover have "Upload sampleEnv ''/sync/a.txt'' ''client-1'' = Inl ''upload refused''"
    by (simp add: sampleEnv_def)
  ultimately show ?thesis using run by blast
qed

text \<open>Claim C9. A directive whose action is none of upload, download, mkdir contributes
  exactly two log lines to the run, the second being the unknown-action line, and no call;
  the directives before and after it run as they would on their own, and the snapshot
  capture follows.\<close>

theorem unknown_action_skipped:
  assumes "(p, fam) \<in> set (ActionFiles plan)"
    and "Action fam \<noteq> ActionUpload" "Action fam \<noteq> ActionDownload" "Action fam \<noteq> ActionMkdir"
  shows "\<exists>before rest res store'.
     ActionFiles plan = before @ (p, fam) # rest \<and>
     processActions env (Some plan) store =
       (rangeActions env before @
        [Log (LogProcessingAction (Action fam) p), Log (LogUnknownAction (Action fam) p)] @
        rangeActions env rest @
        [Log LogCreatingSnapshot, Call CreateDirectorySnapshotCall, res], store') \<and>
     (res = Log LogSnapshotOk \<or> (\<exists>err. res = Log (LogSnapshotFailed err)))"
proof -
  from assms(1) obtain before rest where split: "ActionFiles plan = before @ (p, fam) # rest"
    by (auto simp: in_set_conv_decomp)
  have "dispatch env p fam =
      [Log (LogProcessingAction (Action fam) p), Log (LogUnknownAction (Action fam) p)]"
    using assms(2-4) by (simp add: dispatch_def)
  then have "rangeActions env (ActionFiles plan) =
      rangeActions env before @
      [Log (LogProcessingAction (Action fam) p), Log (LogUnknownAction (Action fam) p)] @
      rangeActions env rest"
    by (simp add: split rangeActions_append)
  with processActions_plan [of env plan store] split show ?thesis
    by auto
qed

text \<open>The theorem at the sample plan, whose directive for \<^verbatim>\<open>b.txt\<close> has the action
  \<open>delete\<close>.\<close>

theorem unknown_action_skipped_witness:
  "(''b.txt'', \<lparr>Action = ''delete''\<rparr>) \<in> set (ActionFiles samplePlan) \<and>
   ''delete'' \<noteq> ActionUpload \<and> ''delete'' \<noteq> ActionDownload \<and> ''delete'' \<noteq> ActionMkdir \<and>
   (\<exists>before rest res store'.
     ActionFiles samplePlan = before @ (''b.txt'', \<lparr>Action = ''delete''\<rparr>) # rest \<and>
     processActions sampleEnv (Some samplePlan) None =
       (rangeActions sampleEnv before @
        [Log (LogProcessingAction ''delete'' ''b.txt''), Log (LogUnknownAction ''delete'' ''b.txt'')] @
        rangeActions sampleEnv rest @
        [Log LogCreatingSnapshot, Call CreateDirectorySnapshotCall, res], store') \<and>
     (res = Log LogSnapshotOk \<or> (\<exists>err. res = Log (LogSnapshotFailed err))))"
proof -
  have m: "(''b.txt'', \<lparr>Action = ''delete''\<rparr>) \<in> set (ActionFiles samplePlan)"
    by (simp add: samplePlan_def)
  have u: "Action \<lparr>Action = ''delete''\<rparr> \<noteq> ActionUpload"
    and d: "Action \<lparr>Action = ''delete''\<rparr> \<noteq> ActionDownload"
    and k: "Action \<lparr>Action = ''delete''\<rparr> \<noteq> ActionMkdir"
    by (simp_all add: ActionUpload_def ActionDownload_def ActionMkdir_def)
  from unknown_action_skipped [OF m u d k, of sampleEnv None] m u d k show ?thesis
    by simp
qed

subsection \<open>Aborted cycles\<close>

lemma main_reconcile_abort:
  assumes "list_ex isSubmitFailure (fst (main_reconcile env lastSnapshot ex currentSnapshot store))"
  shows "\<not> list_ex isDirectiveCall (fst (main_reconcile env lastSnapshot ex currentSnapshot store)) \<and>
     Call CreateDirectorySnapshotCall \<notin> set (fst (main_reconcile env lastSnapshot ex currentSnapshot store)) \<and>
     snd (main_reconcile env lastSnapshot ex currentSnapshot store) = store"
proof -
  have post: "\<not> list_ex isSubmitFailure (snd (postSnapshot env s))"
    if "fst (postSnapshot env s) = Inr sam" for s sam
    using that postSnapshot_failure_logged [of env s] by simp
  show ?thesis
  proof (cases ex)
    case True
    obtain res tevs where ps: "processSnapshots lastSnapshot currentSnapshot = (res, tevs)"
      by (cases "processSnapshots lastSnapshot currentSnapshot")
    have tevs: "\<not> list_ex isSubmitFailure tevs" "\<not> list_ex isDirectiveCall tevs"
      "Call CreateDirectorySnapshotCall \<notin> set tevs"
      using processSnapshots_quiet [of lastSnapshot currentSnapshot] ps by simp_all
    show ?thesis
    proof (cases res)
      case Panics
      with assms True ps tevs show ?thesis
        by (simp add: main_reconcile_def)
    next
      case (Returns fin)
      obtain r pevs where po: "postSnapshot env (Some fin) = (r, pevs)"
        by (cases "postSnapshot env (Some fin)")
      show ?thesis
      proof (cases r)
        case (Inl err)
        with True ps Returns po tevs postSnapshot_quiet [of env "Some fin"] show ?thesis
          by (simp add: main_reconcile_def)
      next
        case (Inr sam)
        with po post [of "Some fin" sam] have "\<not> list_ex isSubmitFailure pevs"
          by simp
        with assms True ps Returns po Inr tevs processActions_no_failure [of env sam store]
        show ?thesis
          by (simp add: main_reconcile_def)
      qed
    qed
  next
    case False
    obtain r pevs where po: "postSnapshot env currentSnapshot = (r, pevs)"
      by (cases "postSnapshot env currentSnapshot")
    show ?thesis
    proof (cases r)
      case (Inl err)
      with False po postSnapshot_quiet [of env currentSnapshot] show ?thesis
        by (simp add: main_reconcile_def)
    next
      case (Inr sam)
      with po post [of currentSnapshot sam] have "\<not> list_ex isSubmitFailure pevs"
        by simp
      with assms False po Inr processActions_no_failure [of env sam store]
      show ?thesis
        by (simp add: main_reconcile_def)
    qed
  qed
qed

lemma main_cycle_abort:
  assumes "list_ex isSubmitFailure (fst (main_cycle env store))"
  shows "\<not> list_ex isDirectiveCall (fst (main_cycle env store)) \<and>
     Call CreateDirectorySnapshotCall \<notin> set (fst (main_cycle env store)) \<and>
     snd (main_cycle env store) = store"
  using assms
  by (auto simp: main_cycle_def split: option.splits sum.splits prod.splits
           dest: main_reconcile_abort)

lemma main_reconcile_submits:
  assumes "Log (LogFinalSnapshot s) \<in> set (fst (main_reconcile env l ex c store))"
  shows "set (snd (postSnapshot env s)) \<subseteq> set (fst (main_reconcile env l ex c store))"
proof -
  have post: "s' = s" if "Log (LogFinalSnapshot s) \<in> set (snd (postSnapshot env s'))" for s'
    using that by (simp add: postSnapshot_final_log)
  have act: "Log (LogFinalSnapshot s) \<notin> set (fst (processActions env sam store))" for sam
    using processActions_events [of "Log (LogFinalSnapshot s)" env sam store] by auto
  have diff: "Log (LogFinalSnapshot s) \<notin> set (snd (processSnapshots l c))"
    using processSnapshots_events [of "Log (LogFinalSnapshot s)" l c] by auto
  show ?thesis
  proof (cases ex)
    case False
    with assms act have "Log (LogFinalSnapshot s) \<in> set (snd (postSnapshot env c))"
      by (auto simp: main_reconcile_def case_prod_unfold split: sum.splits)
    then have "c = s" by (rule post)
    with False show ?thesis
      by (auto simp: main_reconcile_def case_prod_unfold split: sum.splits)
  next
    case True
    obtain res tevs where ps: "processSnapshots l c = (res, tevs)"
      by (cases "processSnapshots l c")
    with diff have tevs: "Log (LogFinalSnapshot s) \<notin> set tevs" by simp
    show ?thesis
    proof (cases res)
      case Panics
      with assms True ps tevs show ?thesis
        by (simp add: main_reconcile_def)
    next
      case (Returns fin)
      with assms True ps tevs act
      have "Log (LogFinalSnapshot s) \<in> set (snd (postSnapshot env (Some fin)))"
        by (auto simp: main_reconcile_def case_prod_unfold split: sum.splits)
      then have "Some fin = s" by (rule post)
      with True ps Returns show ?thesis
        by (auto simp: main_reconcile_def case_prod_unfold split: sum.splits)
    qed
  qed
qed

lemma main_cycle_submits:
  assumes "Log (LogFinalSnapshot s) \<in> set (fst (main_cycle env store))"
  shows "set (snd (postSnapshot env s)) \<subseteq> set (fst (main_cycle env store))"
  using assms
  by (auto simp: main_cycle_def case_prod_unfold split: option.splits sum.splits
           dest: main_reconcile_submits [THEN subsetD])

lemma main_submits:
  assumes "Log (LogFinalSnapshot s) \<in> set (fst (main env store))"
  shows "set (snd (postSnapshot env s)) \<subseteq> set (fst (main env store))"
  using assms
  by (auto simp: main_def case_prod_unfold split: option.splits
           dest: main_cycle_submits [THEN subsetD])

lemma main_abort_on_logged_failure:
  assumes "list_ex isSubmitFailure (fst (main env store))"
  shows "\<not> list_ex isDirectiveCall (fst (main env store)) \<and>
     Call CreateDirectorySnapshotCall \<notin> set (fst (main env store)) \<and>
     snd (main env store) = store"
  using assms
  by (auto simp: main_def case_prod_unfold split: option.splits dest: main_cycle_abort)

text \<open>Claim C5. If a run of \<^verbatim>\<open>main\<close> submits a snapshot (\<^verbatim>\<open>postSnapshot\<close> logs the snapshot
  it is called with) and \<^verbatim>\<open>postSnapshot\<close> returns an error, whichever of its five failures
  caused it (serialization, building the request, transport, reading the body, decoding
  the body), then the run calls no upload, download or mkdir, captures no snapshot, and
  ends with the persisted last snapshot it started with.\<close>

theorem submission_failure_aborts:
  assumes "Log (LogFinalSnapshot snap) \<in> set (fst (main env store))"
    and "fst (postSnapshot env snap) = Inl err"
  shows "\<not> list_ex isDirectiveCall (fst (main env store)) \<and>
     Call CreateDirectorySnapshotCall \<notin> set (fst (main env store)) \<and>
     snd (main env store) = store"
proof -
  from assms(2) have "list_ex isSubmitFailure (snd (postSnapshot env snap))"
    using postSnapshot_failure_logged [of env snap] by simp
  with main_submits [OF assms(1)] have "list_ex isSubmitFailure (fst (main env store))"
    by (auto simp: list_ex_iff)
  then show ?thesis
    by (rule main_abort_on_logged_failure)
qed

text \<open>The theorem at a run whose HTTP request fails: the current snapshot is submitted,
  \<^verbatim>\<open>postSnapshot\<close> returns the transport error, no directive runs and the store keeps its
  content.\<close>

theorem submission_failure_aborts_witness:
  "Log (LogFinalSnapshot (Some \<lparr>Files = [(''a.txt'', \<lparr>Status = ''present'', Meta = 1\<rparr>)]\<rparr>))
     \<in> set (fst (main (sampleEnv\<lparr>http_Do := (\<lambda>_. Inl ''connection refused'')\<rparr>)
                    (Some \<lparr>Files = []\<rparr>))) \<and>
   fst (postSnapshot (sampleEnv\<lparr>http_Do := (\<lambda>_. Inl ''connection refused'')\<rparr>)
          (Some \<lparr>Files = [(''a.txt'', \<lparr>Status = ''present'', Meta = 1\<rparr>)]\<rparr>)) =
     Inl ''connection refused'' \<and>
   \<not> list_ex isDirectiveCall
     (fst (main (sampleEnv\<lparr>http_Do := (\<lambda>_. Inl ''connection refused'')\<rparr>)
                (Some \<lparr>Files = []\<rparr>))) \<and>
   Call CreateDirectorySnapshotCall \<notin>
     set (fst (main (sampleEnv\<lparr>http_Do := (\<lambda>_. Inl ''connection refused'')\<rparr>)
                (Some \<lparr>Files = []\<rparr>))) \<and>
   snd (main (sampleEnv\<lparr>http_Do := (\<lambda>_. Inl ''connection refused'')\<rparr>)
             (Some \<lparr>Files = []\<rparr>)) = Some \<lparr>Files = []\<rparr>"
proof -
  let ?env = "sampleEnv\<lparr>http_Do := (\<lambda>_. Inl ''connection refused'')\<rparr>"
  let ?cur = "Some \<lparr>Files = [(''a.txt'', \<lparr>Status = ''present'', Meta = 1::nat\<rparr>)]\<rparr>"
  have h: "Log (LogFinalSnapshot ?cur) \<in> set (fst (main ?env (Some \<lparr>Files = []\<rparr>)))"
    by (simp add: main_def main_cycle_def main_reconcile_def postSnapshot_def sampleEnv_def
          after_def)
  have f: "fst (postSnapshot ?env ?cur) = Inl ''connection refused''"
    by (simp add: postSnapshot_def sampleEnv_def)
  from submission_failure_aborts [OF h f] h f show ?thesis
    by simp
qed

lemma main_cycle_bootstrap_fails:
  "PurgeQueue env (queueName env) = Inl err \<Longrightarrow>
     \<not> list_ex isCycleWork (fst (main_cycle env store)) \<and> snd (main_cycle env store) = store"
  "DeclareQueue env (queueName env) = Some err \<Longrightarrow>
     \<not> list_ex isCycleWork (fst (main_cycle env store)) \<and>
     (\<forall>q. Call (PurgeQueueCall q) \<notin> set (fst (main_cycle env store))) \<and>
     snd (main_cycle env store) = store"
  by (simp_all add: main_cycle_def split: option.splits)

text \<open>Claim C8. If the purge of the queue returns an error, the run of \<^verbatim>\<open>main\<close> never reads
  the last snapshot, never computes the current one, submits nothing, runs no directive
  and captures nothing, and the store is unchanged; the same holds if declaring the queue
  returns an error, and then the purge is not attempted either.\<close>

theorem bootstrap_failure_aborts:
  "(PurgeQueue env (queueName env) = Inl err \<longrightarrow>
      \<not> list_ex isCycleWork (fst (main env store)) \<and> snd (main env store) = store) \<and>
   (DeclareQueue env (queueName env) = Some err \<longrightarrow>
      \<not> list_ex isCycleWork (fst (main env store)) \<and>
      (\<forall>q. Call (PurgeQueueCall q) \<notin> set (fst (main env store))) \<and>
      snd (main env store) = store)"
  using main_cycle_bootstrap_fails [of env err store]
  by (auto simp: main_def case_prod_unfold split: option.splits)

text \<open>The theorem at a run whose purge fails and at a run whose queue declaration fails,
  with the full list of events of each.\<close>

theorem bootstrap_failure_aborts_witness:
  "PurgeQueue (sampleEnv\<lparr>PurgeQueue := (\<lambda>_. Inl ''channel closed'')\<rparr>)
     (queueName (sampleEnv\<lparr>PurgeQueue := (\<lambda>_. Inl ''channel closed'')\<rparr>)) = Inl ''channel closed'' \<and>
   main (sampleEnv\<lparr>PurgeQueue := (\<lambda>_. Inl ''channel closed'')\<rparr>) None =
     ([Log LogStarting, Call (NewConnectionCall ''amqp://localhost''),
       Call (DeclareQueueCall ''q1''), Call (PurgeQueueCall ''q1''),
       Log (LogPurgeError ''channel closed''),
       Call ManagementClose, Call ConnectionClose, Call CloseConnections], None) \<and>
   \<not> list_ex isCycleWork (fst (main (sampleEnv\<lparr>PurgeQueue := (\<lambda>_. Inl ''channel closed'')\<rparr>) None)) \<and>
   DeclareQueue (sampleEnv\<lparr>DeclareQueue := (\<lambda>_. Some ''access refused'')\<rparr>)
     (queueName (sampleEnv\<lparr>DeclareQueue := (\<lambda>_. Some ''access refused'')\<rparr>)) = Some ''access refused'' \<and>
   main (sampleEnv\<lparr>DeclareQueue := (\<lambda>_. Some ''access refused'')\<rparr>) None =
     ([Log LogStarting, Call (NewConnectionCall ''amqp://localhost''),
       Call (DeclareQueueCall ''q1''), Log (RmqErrorDeclare ''access refused''),
       Call ManagementClose, Call ConnectionClose, Call CloseConnections], None) \<and>
   \<not> list_ex isCycleWork (fst (main (sampleEnv\<lparr>DeclareQueue := (\<lambda>_. Some ''access refused'')\<rparr>) None))"
proof -
  let ?p = "sampleEnv\<lparr>PurgeQueue := (\<lambda>_. Inl ''channel closed'')\<rparr>"
  let ?d = "sampleEnv\<lparr>DeclareQueue := (\<lambda>_. Some ''access refused'')\<rparr>"
  have p: "PurgeQueue ?p (queueName ?p) = Inl ''channel closed''"
    and d: "DeclareQueue ?d (queueName ?d) = Some ''access refused''"
    by simp_all
  have "main ?p None =
     ([Log LogStarting, Call (NewConnectionCall ''amqp://localhost''),
       Call (DeclareQueueCall ''q1''), Call (PurgeQueueCall ''q1''),
       Log (LogPurgeError ''channel closed''),
       Call ManagementClose, Call ConnectionClose, Call CloseConnections], None)"
    and "main ?d None =
     ([Log LogStarting, Call (NewConnectionCall ''amqp://localhost''),
       Call (DeclareQueueCall ''q1''), Log (RmqErrorDeclare ''access refused''),
       Call ManagementClose, Call ConnectionClose, Call CloseConnections], None)"
    by (simp_all add: main_def main_cycle_def sampleEnv_def after_def)
  with bootstrap_failure_aborts [of ?p "''channel closed''" None]
    bootstrap_failure_aborts [of ?d "''access refused''" None] p d
  show ?thesis by simp
qed

subsection \<open>The last snapshot: absent, or read with an error\<close>

lemma main_reconcile_first_run:
  "\<exists>rest. fst (main_reconcile env lastSnapshot False currentSnapshot store) =
      Log LogLastMissing # snd (postSnapshot env currentSnapshot) @ rest \<and>
      (\<forall>e \<in> set rest. (\<exists>err. e = Log (LogError err)) \<or> e = Log LogProcessingActions \<or>
          isExecutorEvent e)"
  by (cases "postSnapshot env currentSnapshot")
     (auto simp: main_reconcile_def split: sum.splits dest: processActions_events)

lemma main_reached:
  assumes "NewConnection env = None" and "DeclareQueue env (queueName env) = None"
    and "PurgeQueue env (queueName env) = Inr n"
    and "GetLastSnapshot env = (lastSnapshot, ex, err)"
    and "GetLocalMetadata env = (currentSnapshot, None)"
  shows "fst (main env store) =
      (case godotenv_Load env of Some e \<Rightarrow> [Log (LogNoEnv e)] | None \<Rightarrow> []) @
      [Log LogStarting, Call (NewConnectionCall (address env)),
       Call (DeclareQueueCall (queueName env)), Call (PurgeQueueCall (queueName env)),
       Log (LogPurging n), Log LogGettingLast, Call GetLastSnapshotCall] @
      (case err of Some e \<Rightarrow> [Log (LogError e)] | None \<Rightarrow> []) @
      [Log (LogLastStruct lastSnapshot), Log LogGettingCurrent, Call GetLocalMetadataCall,
       Log (LogCurrentStruct currentSnapshot)] @
      fst (main_reconcile env lastSnapshot ex currentSnapshot store) @
      [Call ManagementClose, Call ConnectionClose, Call CloseConnections]"
    and "snd (main env store) = snd (main_reconcile env lastSnapshot ex currentSnapshot store)"
  using assms by (simp_all add: main_def main_cycle_def case_prod_unfold)

text \<open>Claim C6. In a run that gets as far as the submission and in which the last-snapshot
  read reports that no last snapshot exists, \<^verbatim>\<open>postSnapshot\<close> is called with the current
  snapshot and with nothing else: the snapshot it logs as the one to be sent is the current
  one, every HTTP request of the run carries the serialization of the payload made of the
  client id and the current snapshot, that request is sent whenever the payload serializes
  and the request can be built, and the diff engine writes no tombstone.\<close>

theorem first_run_submits_current:
  assumes "NewConnection env = None" and "DeclareQueue env (queueName env) = None"
    and "PurgeQueue env (queueName env) = Inr n"
    and "GetLastSnapshot env = (lastSnapshot, False, err)"
    and "GetLocalMetadata env = (currentSnapshot, None)"
  shows "Log (LogFinalSnapshot currentSnapshot) \<in> set (fst (main env store)) \<and>
    (\<forall>s. Log (LogFinalSnapshot s) \<in> set (fst (main env store)) \<longrightarrow> s = currentSnapshot) \<and>
    (\<forall>req. Call (HttpDo req) \<in> set (fst (main env store)) \<longrightarrow>
       json_Marshal env \<lparr>ClientID = clientID env, FinalSnapshot = currentSnapshot\<rparr> =
         Inr (Body req)) \<and>
    (\<forall>jsonData.
       json_Marshal env \<lparr>ClientID = clientID env, FinalSnapshot = currentSnapshot\<rparr> =
         Inr jsonData \<and>
       http_NewRequest env ''POST'' (serverURL env @ ''/snapshot'') jsonData = None \<longrightarrow>
       Call (HttpDo \<lparr>Method = ''POST'', URL = serverURL env @ ''/snapshot'', Body = jsonData,
                      Header = [(''Content-Type'', ''application/json'')]\<rparr>)
         \<in> set (fst (main env store))) \<and>
    (\<forall>p. Log (LogTombstone p) \<notin> set (fst (main env store)))"
proof -
  obtain rest where rec: "fst (main_reconcile env lastSnapshot False currentSnapshot store) =
      Log LogLastMissing # snd (postSnapshot env currentSnapshot) @ rest"
    and rest: "\<forall>e \<in> set rest. (\<exists>err. e = Log (LogError err)) \<or> e = Log LogProcessingActions \<or>
          isExecutorEvent e"
    using main_reconcile_first_run by blast
  have post: "isProtocolEvent e" if "e \<in> set (snd (postSnapshot env currentSnapshot))" for e
    using that by (rule postSnapshot_events)
  have run: "set (fst (main env store)) =
      set (case godotenv_Load env of Some e \<Rightarrow> [Log (LogNoEnv e)] | None \<Rightarrow> []) \<union>
      set (case err of Some e \<Rightarrow> [Log (LogError e)] | None \<Rightarrow> []) \<union>
      {Log LogStarting, Call (NewConnectionCall (address env)),
       Call (DeclareQueueCall (queueName env)), Call (PurgeQueueCall (queueName env)),
       Log (LogPurging n), Log LogGettingLast, Call GetLastSnapshotCall,
       Log (LogLastStruct lastSnapshot), Log LogGettingCurrent, Call GetLocalMetadataCall,
       Log (LogCurrentStruct currentSnapshot), Log LogLastMissing,
       Call ManagementClose, Call ConnectionClose, Call CloseConnections} \<union>
      set (snd (postSnapshot env currentSnapshot)) \<union> set rest"
    by (simp add: main_reached(1) [OF assms] rec) blast
  have a: "Log (LogFinalSnapshot currentSnapshot) \<in> set (fst (main env store))"
    by (simp add: run postSnapshot_final_log)
  have b: "s = currentSnapshot" if "Log (LogFinalSnapshot s) \<in> set (fst (main env store))" for s
  proof -
    from rest have "Log (LogFinalSnapshot s) \<notin> set rest" by auto
    with that show ?thesis
      by (auto simp: run postSnapshot_final_log split: option.splits)
  qed
  have c: "json_Marshal env \<lparr>ClientID = clientID env, FinalSnapshot = currentSnapshot\<rparr> =
         Inr (Body req)" if "Call (HttpDo req) \<in> set (fst (main env store))" for req
  proof -
    from rest have "Call (HttpDo req) \<notin> set rest" by auto
    with that have "Call (HttpDo req) \<in> set (snd (postSnapshot env currentSnapshot))"
      by (auto simp: run split: option.splits)
    then show ?thesis by (rule postSnapshot_http)
  qed
  have d: "Call (HttpDo \<lparr>Method = ''POST'', URL = serverURL env @ ''/snapshot'', Body = jsonData,
                      Header = [(''Content-Type'', ''application/json'')]\<rparr>)
         \<in> set (fst (main env store))"
    if "json_Marshal env \<lparr>ClientID = clientID env, FinalSnapshot = currentSnapshot\<rparr> =
         Inr jsonData"
      and "http_NewRequest env ''POST'' (serverURL env @ ''/snapshot'') jsonData = None"
    for jsonData
    using postSnapshot_sends [OF that] by (simp add: run)
  have e: "Log (LogTombstone p) \<notin> set (fst (main env store))" for p
  proof -
    from rest have "Log (LogTombstone p) \<notin> set rest" by auto
    moreover have "Log (LogTombstone p) \<notin> set (snd (postSnapshot env currentSnapshot))"
      using post [of "Log (LogTombstone p)"] by auto
    ultimately show ?thesis
      by (auto simp: run split: option.splits)
  qed
  from a b c d e show ?thesis by blast
qed

text \<open>The theorem at the sample environment, a first run with one file.\<close>

theorem first_run_submits_current_witness:
  "NewConnection sampleEnv = None \<and> DeclareQueue sampleEnv (queueName sampleEnv) = None \<and>
   PurgeQueue sampleEnv (queueName sampleEnv) = Inr 0 \<and>
   GetLastSnapshot sampleEnv = (None, False, None) \<and>
   GetLocalMetadata sampleEnv =
     (Some \<lparr>Files = [(''a.txt'', \<lparr>Status = ''present'', Meta = 1\<rparr>)]\<rparr>, None) \<and>
   Log (LogFinalSnapshot (Some \<lparr>Files = [(''a.txt'', \<lparr>Status = ''present'', Meta = 1\<rparr>)]\<rparr>))
     \<in> set (fst (main sampleEnv None)) \<and>
   json_Marshal sampleEnv
     \<lparr>ClientID = ''client-1'',
      FinalSnapshot = Some \<lparr>Files = [(''a.txt'', \<lparr>Status = ''present'', Meta = 1\<rparr>)]\<rparr>\<rparr> =
     Inr ''payload'' \<and>
   Call (HttpDo \<lparr>Method = ''POST'', URL = ''http://server/snapshot'', Body = ''payload'',
                  Header = [(''Content-Type'', ''application/json'')]\<rparr>)
     \<in> set (fst (main sampleEnv None)) \<and>
   (\<forall>p. Log (LogTombstone p) \<notin> set (fst (main sampleEnv None)))"
proof -
  have h: "NewConnection sampleEnv = None" "DeclareQueue sampleEnv (queueName sampleEnv) = None"
    "PurgeQueue sampleEnv (queueName sampleEnv) = Inr 0"
    "GetLastSnapshot sampleEnv = (None, False, None)"
    "GetLocalMetadata sampleEnv =
       (Some \<lparr>Files = [(''a.txt'', \<lparr>Status = ''present'', Meta = 1\<rparr>)]\<rparr>, None)"
    by (simp_all add: sampleEnv_def)
  have m: "json_Marshal sampleEnv
     \<lparr>ClientID = clientID sampleEnv,
      FinalSnapshot = Some \<lparr>Files = [(''a.txt'', \<lparr>Status = ''present'', Meta = 1\<rparr>)]\<rparr>\<rparr> =
     Inr ''payload''"
    and r: "http_NewRequest sampleEnv ''POST'' (serverURL sampleEnv @ ''/snapshot'') ''payload'' = None"
    and c: "clientID sampleEnv = ''client-1''" "serverURL sampleEnv = ''http://server''"
    by (simp_all add: sampleEnv_def)
  from first_run_submits_current [OF h, of None] h m r c show ?thesis
    by simp
qed

lemma postSnapshot_ignores_last:
  "postSnapshot (env\<lparr>GetLastSnapshot := x\<rparr>) snap = postSnapshot env snap"
  by (simp add: postSnapshot_def Let_def cong: sum.case_cong option.case_cong)

lemma dispatch_ignores_last:
  "dispatch (env\<lparr>GetLastSnapshot := x\<rparr>) p fam = dispatch env p fam"
  by (simp add: dispatch_def)

lemma rangeActions_ignores_last:
  "rangeActions (env\<lparr>GetLastSnapshot := x\<rparr>) ds = rangeActions env ds"
  by (induction ds) (auto simp: dispatch_ignores_last)

lemma processActions_ignores_last:
  "processActions (env\<lparr>GetLastSnapshot := x\<rparr>) sam store = processActions env sam store"
  by (simp add: processActions_def rangeActions_ignores_last cong: option.case_cong)

lemma main_reconcile_ignores_last:
  "main_reconcile (env\<lparr>GetLastSnapshot := x\<rparr>) l ex c store = main_reconcile env l ex c store"
  by (simp add: main_reconcile_def postSnapshot_ignores_last processActions_ignores_last
           cong: prod.case_cong outcome.case_cong sum.case_cong)

lemma main_reconcile_branch:
  "Log LogLastExists \<in> set (fst (main_reconcile env l ex c store)) \<longleftrightarrow> ex"
  "Log LogLastMissing \<in> set (fst (main_reconcile env l ex c store)) \<longleftrightarrow> \<not> ex"
  by (auto simp: main_reconcile_def case_prod_unfold
           split: sum.splits outcome.splits if_splits
           dest: processActions_events postSnapshot_events processSnapshots_events)

lemma main_reconcile_diff:
  assumes "processSnapshots l c = (Returns fin, tevs)"
  shows "\<exists>rest. fst (main_reconcile env l True c store) =
      Log LogLastExists # tevs @ snd (postSnapshot env (Some fin)) @ rest \<and>
      (\<forall>e \<in> set rest. (\<exists>err. e = Log (LogError err)) \<or> e = Log LogProcessingActions \<or>
          isExecutorEvent e)"
  using assms
  by (cases "postSnapshot env (Some fin)")
     (auto simp: main_reconcile_def split: sum.splits dest: processActions_events)

lemma main_reconcile_panic:
  assumes "processSnapshots l c = (Panics, tevs)"
  shows "main_reconcile env l True c store = (Log LogLastExists # tevs @ [Panic], store)"
  using assms by (simp add: main_reconcile_def after_def)

lemma executor_not_protocol: "isExecutorEvent e \<Longrightarrow> \<not> isProtocolEvent e"
  by (cases e rule: isProtocolEvent.cases) auto

text \<open>In a run made of bootstrap events, the events of one call of \<^verbatim>\<open>postSnapshot\<close> and
  events of the executor, the submitted snapshot and the HTTP requests are those of that
  call.\<close>

lemma submitted_in_segment:
  assumes "\<forall>e \<in> set before. \<not> isProtocolEvent e" and "\<forall>e \<in> set rest. \<not> isProtocolEvent e"
  shows "Log (LogFinalSnapshot s) \<in> set (before @ snd (postSnapshot env snap) @ rest) \<Longrightarrow>
           s = snap"
    and "Call (HttpDo req) \<in> set (before @ snd (postSnapshot env snap) @ rest) \<Longrightarrow>
           json_Marshal env \<lparr>ClientID = clientID env, FinalSnapshot = snap\<rparr> = Inr (Body req)"
  using assms by (auto simp: postSnapshot_final_log dest: postSnapshot_http)

text \<open>Claim C10. In a run that gets as far as the last-snapshot read, an error returned by
  the read adds one log line after the call and changes nothing else: the run is the run
  with the same snapshot and flag and no error, plus that line, and it leaves the same
  store. The run goes on to compute the current snapshot, and when that succeeds the flag
  alone decides what is submitted. With the flag true, \<^verbatim>\<open>processSnapshots\<close> runs on the
  returned last snapshot and the current one, its log lines are followed by the events of
  \<^verbatim>\<open>postSnapshot\<close> on its result, and that result is the only snapshot submitted and the
  one every HTTP request carries (if it panics, nothing is submitted). With the flag
  false, the events of \<^verbatim>\<open>postSnapshot\<close> on the current snapshot follow the as-is log
  line, the current snapshot is the only one submitted, and no tombstone is written.\<close>

theorem last_snapshot_error_only_logged:
  assumes "NewConnection env = None" and "DeclareQueue env (queueName env) = None"
    and "PurgeQueue env (queueName env) = Inr n"
    and "GetLastSnapshot env = (lastSnapshot, ex, Some e)"
  shows "\<exists>pre post.
    fst (main env store) = pre @ Call GetLastSnapshotCall # Log (LogError e) # post \<and>
    fst (main (env\<lparr>GetLastSnapshot := (lastSnapshot, ex, None)\<rparr>) store) =
      pre @ Call GetLastSnapshotCall # post \<and>
    snd (main env store) = snd (main (env\<lparr>GetLastSnapshot := (lastSnapshot, ex, None)\<rparr>) store) \<and>
    Call GetLocalMetadataCall \<in> set post \<and>
    (snd (GetLocalMetadata env) = None \<longrightarrow>
       (Log LogLastExists \<in> set post \<longleftrightarrow> ex) \<and> (Log LogLastMissing \<in> set post \<longleftrightarrow> \<not> ex)) \<and>
    (\<forall>currentSnapshot. GetLocalMetadata env = (currentSnapshot, None) \<longrightarrow>
       (ex \<longrightarrow>
          (\<forall>finalSnapshot tevs.
             processSnapshots lastSnapshot currentSnapshot = (Returns finalSnapshot, tevs) \<longrightarrow>
             (\<exists>mid rest.
                post = mid @ Log LogLastExists # tevs @
                       snd (postSnapshot env (Some finalSnapshot)) @ rest) \<and>
             (\<forall>s. Log (LogFinalSnapshot s) \<in> set (fst (main env store)) \<longrightarrow>
                  s = Some finalSnapshot) \<and>
             (\<forall>req. Call (HttpDo req) \<in> set (fst (main env store)) \<longrightarrow>
                  json_Marshal env
                    \<lparr>ClientID = clientID env, FinalSnapshot = Some finalSnapshot\<rparr> =
                  Inr (Body req))) \<and>
          (\<forall>tevs.
             processSnapshots lastSnapshot currentSnapshot = (Panics, tevs) \<longrightarrow>
             Panic \<in> set post \<and>
             (\<forall>s. Log (LogFinalSnapshot s) \<notin> set (fst (main env store))) \<and>
             (\<forall>req. Call (HttpDo req) \<notin> set (fst (main env store))))) \<and>
       (\<not> ex \<longrightarrow>
          (\<exists>mid rest.
             post = mid @ Log LogLastMissing # snd (postSnapshot env currentSnapshot) @ rest) \<and>
          (\<forall>s. Log (LogFinalSnapshot s) \<in> set (fst (main env store)) \<longrightarrow>
               s = currentSnapshot) \<and>
          (\<forall>req. Call (HttpDo req) \<in> set (fst (main env store)) \<longrightarrow>
               json_Marshal env \<lparr>ClientID = clientID env, FinalSnapshot = currentSnapshot\<rparr> =
               Inr (Body req)) \<and>
          (\<forall>p. Log (LogTombstone p) \<notin> set (fst (main env store)))))"
proof -
  let ?env' = "env\<lparr>GetLastSnapshot := (lastSnapshot, ex, None)\<rparr>"
  let ?pre = "(case godotenv_Load env of Some e \<Rightarrow> [Log (LogNoEnv e)] | None \<Rightarrow> []) @
      [Log LogStarting, Call (NewConnectionCall (address env)),
       Call (DeclareQueueCall (queueName env)), Call (PurgeQueueCall (queueName env)),
       Log (LogPurging n), Log LogGettingLast]"
  let ?tail = "case GetLocalMetadata env of
          (currentSnapshot, Some e) \<Rightarrow> ([Log (LogError e)], store)
        | (currentSnapshot, None) \<Rightarrow>
            after [Log (LogCurrentStruct currentSnapshot)]
              (main_reconcile env lastSnapshot ex currentSnapshot store)"
  let ?post = "[Log (LogLastStruct lastSnapshot), Log LogGettingCurrent,
       Call GetLocalMetadataCall] @ fst ?tail @
      [Call ManagementClose, Call ConnectionClose, Call CloseConnections]"
  let ?closes = "[Call ManagementClose, Call ConnectionClose, Call CloseConnections]
      :: 'a event list"
  have 1: "fst (main env store) = ?pre @ Call GetLastSnapshotCall # Log (LogError e) # ?post"
    and 2: "snd (main env store) = snd ?tail"
    using assms
    by (simp_all add: main_def main_cycle_def case_prod_unfold cong: option.case_cong)
  have 3: "fst (main ?env' store) = ?pre @ Call GetLastSnapshotCall # ?post"
    and 4: "snd (main ?env' store) = snd ?tail"
    using assms
    by (simp_all add: main_def main_cycle_def case_prod_unfold main_reconcile_ignores_last
                 cong: option.case_cong)
  have 5: "Call GetLocalMetadataCall \<in> set ?post"
    by simp
  have 6: "(Log LogLastExists \<in> set ?post \<longleftrightarrow> ex) \<and> (Log LogLastMissing \<in> set ?post \<longleftrightarrow> \<not> ex)"
    if "snd (GetLocalMetadata env) = None"
    using that main_reconcile_branch [of env lastSnapshot ex "fst (GetLocalMetadata env)" store]
    by (cases "GetLocalMetadata env") auto
  let ?head = "\<lambda>c. ?pre @ [Call GetLastSnapshotCall, Log (LogError e),
      Log (LogLastStruct lastSnapshot), Log LogGettingCurrent, Call GetLocalMetadataCall,
      Log (LogCurrentStruct c)]"
  let ?mid = "\<lambda>c. [Log (LogLastStruct lastSnapshot), Log LogGettingCurrent,
      Call GetLocalMetadataCall, Log (LogCurrentStruct c)] :: 'a event list"
  have head: "\<forall>e \<in> set (?head c). \<not> isProtocolEvent e \<and> (\<forall>p. e \<noteq> Log (LogTombstone p))
      \<and> e \<noteq> Panic" for c
    by (auto split: option.splits)
  have post: "?post = ?mid c @ fst (main_reconcile env lastSnapshot ex c store) @ ?closes"
    and run: "fst (main env store) =
        ?head c @ fst (main_reconcile env lastSnapshot ex c store) @ ?closes"
    if "GetLocalMetadata env = (c, None)" for c
    using that by (simp_all add: 1)
  have 7: "(\<exists>mid rest.
                ?post = mid @ Log LogLastExists # tevs @
                       snd (postSnapshot env (Some fin)) @ rest) \<and>
             (\<forall>s. Log (LogFinalSnapshot s) \<in> set (fst (main env store)) \<longrightarrow> s = Some fin) \<and>
             (\<forall>req. Call (HttpDo req) \<in> set (fst (main env store)) \<longrightarrow>
                  json_Marshal env \<lparr>ClientID = clientID env, FinalSnapshot = Some fin\<rparr> =
                  Inr (Body req))"
    if c: "GetLocalMetadata env = (c, None)" and ex and
      ps: "processSnapshots lastSnapshot c = (Returns fin, tevs)" for c fin tevs
  proof -
    from main_reconcile_diff [OF ps, of env store] obtain rest where
      rec: "fst (main_reconcile env lastSnapshot True c store) =
        Log LogLastExists # tevs @ snd (postSnapshot env (Some fin)) @ rest"
      and rest: "\<forall>e \<in> set rest. (\<exists>err. e = Log (LogError err)) \<or> e = Log LogProcessingActions \<or>
          isExecutorEvent e"
      by blast
    have tevs: "\<forall>e \<in> set tevs. \<not> isProtocolEvent e"
    proof
      fix ev assume "ev \<in> set tevs"
      with ps have "ev \<in> set (snd (processSnapshots lastSnapshot c))" by simp
      then obtain p where "ev = Log (LogTombstone p)"
        using processSnapshots_events by blast
      then show "\<not> isProtocolEvent ev" by simp
    qed
    have seg: "?post = ?mid c @ Log LogLastExists # tevs @
        snd (postSnapshot env (Some fin)) @ (rest @ ?closes)"
      using post [OF c] rec \<open>ex\<close> by simp
    have whole: "fst (main env store) =
        (?head c @ Log LogLastExists # tevs) @ snd (postSnapshot env (Some fin)) @
        (rest @ ?closes)"
      using run [OF c] rec \<open>ex\<close> by simp
    have b: "\<forall>e \<in> set (?head c @ Log LogLastExists # tevs). \<not> isProtocolEvent e"
      using head [of c] tevs by auto
    have r: "\<forall>e \<in> set (rest @ ?closes). \<not> isProtocolEvent e"
      using rest by (auto dest: executor_not_protocol)
    from seg submitted_in_segment [OF b r, of _ env "Some fin"] show ?thesis
      unfolding whole by blast
  qed
  have 8: "Panic \<in> set ?post \<and>
             (\<forall>s. Log (LogFinalSnapshot s) \<notin> set (fst (main env store))) \<and>
             (\<forall>req. Call (HttpDo req) \<notin> set (fst (main env store)))"
    if c: "GetLocalMetadata env = (c, None)" and ex and
      ps: "processSnapshots lastSnapshot c = (Panics, tevs)" for c tevs
  proof -
    have tevs: "\<forall>e \<in> set tevs. \<not> isProtocolEvent e"
    proof
      fix ev assume "ev \<in> set tevs"
      with ps have "ev \<in> set (snd (processSnapshots lastSnapshot c))" by simp
      then obtain p where "ev = Log (LogTombstone p)"
        using processSnapshots_events by blast
      then show "\<not> isProtocolEvent ev" by simp
    qed
    have rec: "fst (main_reconcile env lastSnapshot ex c store) =
        Log LogLastExists # tevs @ [Panic]"
      using main_reconcile_panic [OF ps, of env store] \<open>ex\<close> by simp
    have "\<forall>e \<in> set (fst (main env store)). \<not> isProtocolEvent e"
      using head [of c] tevs unfolding run [OF c] rec by auto
    then have "\<forall>s. Log (LogFinalSnapshot s) \<notin> set (fst (main env store))"
      and "\<forall>req. Call (HttpDo req) \<notin> set (fst (main env store))"
      by auto
    moreover have "Panic \<in> set ?post"
      unfolding post [OF c] rec by simp
    ultimately show ?thesis by blast
  qed
  have 9: "(\<exists>mid rest.
             ?post = mid @ Log LogLastMissing # snd (postSnapshot env c) @ rest) \<and>
          (\<forall>s. Log (LogFinalSnapshot s) \<in> set (fst (main env store)) \<longrightarrow> s = c) \<and>
          (\<forall>req. Call (HttpDo req) \<in> set (fst (main env store)) \<longrightarrow>
               json_Marshal env \<lparr>ClientID = clientID env, FinalSnapshot = c\<rparr> =
               Inr (Body req)) \<and>
          (\<forall>p. Log (LogTombstone p) \<notin> set (fst (main env store)))"
    if c: "GetLocalMetadata env = (c, None)" and "\<not> ex" for c
  proof -
    from main_reconcile_first_run [of env lastSnapshot c store] obtain rest where
      rec: "fst (main_reconcile env lastSnapshot False c store) =
        Log LogLastMissing # snd (postSnapshot env c) @ rest"
      and rest: "\<forall>e \<in> set rest. (\<exists>err. e = Log (LogError err)) \<or> e = Log LogProcessingActions \<or>
          isExecutorEvent e"
      by blast
    have seg: "?post = ?mid c @ Log LogLastMissing # snd (postSnapshot env c) @ (rest @ ?closes)"
      using post [OF c] rec \<open>\<not> ex\<close> by simp
    have whole: "fst (main env store) =
        (?head c @ [Log LogLastMissing]) @ snd (postSnapshot env c) @ (rest @ ?closes)"
      using run [OF c] rec \<open>\<not> ex\<close> by simp
    have b: "\<forall>e \<in> set (?head c @ [Log LogLastMissing]). \<not> isProtocolEvent e"
      using head [of c] by auto
    have r: "\<forall>e \<in> set (rest @ ?closes). \<not> isProtocolEvent e"
      using rest by (auto dest: executor_not_protocol)
    have t: "Log (LogTombstone p) \<notin> set (fst (main env store))" for p
      using head [of c] rest postSnapshot_events [of "Log (LogTombstone p)" env c]
      unfolding whole by auto
    from seg t submitted_in_segment [OF b r, of _ env c] show ?thesis
      unfolding whole by blast
  qed
  show ?thesis
    apply (rule exI [of _ ?pre], rule exI [of _ ?post], intro conjI)
    subgoal using 1 by simp
    subgoal using 3 by simp
    subgoal using 2 4 by simp
    subgoal using 5 by simp
    subgoal using 6 by blast
    subgoal using 7 8 9 by blast
    done
qed

text \<open>The theorem at a run whose last-snapshot read returns a snapshot holding \<^verbatim>\<open>b.txt\<close>,
  the flag true and an error: the error is logged, the diff with the current snapshot
  (which holds \<^verbatim>\<open>a.txt\<close>) is computed and submitted, tombstone for \<^verbatim>\<open>b.txt\<close> included;
  the undiffed current snapshot is not. And at a run whose read returns the flag false and
  an error: no tombstone is written and the absent last snapshot is not what is submitted.\<close>

theorem last_snapshot_error_only_logged_witness:
  "NewConnection
     (sampleEnv\<lparr>GetLastSnapshot :=
        (Some \<lparr>Files = [(''b.txt'', \<lparr>Status = ''present'', Meta = 2\<rparr>)]\<rparr>, True,
         Some ''stale lock'')\<rparr>) = None \<and>
   GetLastSnapshot
     (sampleEnv\<lparr>GetLastSnapshot :=
        (Some \<lparr>Files = [(''b.txt'', \<lparr>Status = ''present'', Meta = 2\<rparr>)]\<rparr>, True,
         Some ''stale lock'')\<rparr>) =
     (Some \<lparr>Files = [(''b.txt'', \<lparr>Status = ''present'', Meta = 2\<rparr>)]\<rparr>, True,
      Some ''stale lock'') \<and>
   processSnapshots
     (Some \<lparr>Files = [(''b.txt'', \<lparr>Status = ''present'', Meta = 2\<rparr>)]\<rparr>)
     (Some \<lparr>Files = [(''a.txt'', \<lparr>Status = ''present'', Meta = 1::nat\<rparr>)]\<rparr>) =
     (Returns \<lparr>Files = [(''b.txt'', \<lparr>Status = StatusDeleted, Meta = 2\<rparr>),
                          (''a.txt'', \<lparr>Status = ''present'', Meta = 1\<rparr>)]\<rparr>,
      [Log (LogTombstone ''b.txt'')]) \<and>
   (\<exists>pre post.
      fst (main (sampleEnv\<lparr>GetLastSnapshot :=
                   (Some \<lparr>Files = [(''b.txt'', \<lparr>Status = ''present'', Meta = 2\<rparr>)]\<rparr>, True,
                    Some ''stale lock'')\<rparr>) None) =
        pre @ Call GetLastSnapshotCall # Log (LogError ''stale lock'') # post \<and>
      fst (main (sampleEnv\<lparr>GetLastSnapshot :=
                   (Some \<lparr>Files = [(''b.txt'', \<lparr>Status = ''present'', Meta = 2\<rparr>)]\<rparr>, True,
                    None)\<rparr>) None) =
        pre @ Call GetLastSnapshotCall # post \<and>
      Call GetLocalMetadataCall \<in> set post \<and>
      Log LogLastExists \<in> set post \<and> Log LogLastMissing \<notin> set post \<and>
      (\<exists>mid rest.
         post = mid @ Log LogLastExists # [Log (LogTombstone ''b.txt'')] @
           snd (postSnapshot
                  (sampleEnv\<lparr>GetLastSnapshot :=
                     (Some \<lparr>Files = [(''b.txt'', \<lparr>Status = ''present'', Meta = 2\<rparr>)]\<rparr>, True,
                      Some ''stale lock'')\<rparr>)
                  (Some \<lparr>Files = [(''b.txt'', \<lparr>Status = StatusDeleted, Meta = 2\<rparr>),
                                   (''a.txt'', \<lparr>Status = ''present'', Meta = 1\<rparr>)]\<rparr>)) @ rest)) \<and>
   Log (LogFinalSnapshot (Some \<lparr>Files = [(''a.txt'', \<lparr>Status = ''present'', Meta = 1\<rparr>)]\<rparr>))
     \<notin> set (fst (main (sampleEnv\<lparr>GetLastSnapshot :=
                   (Some \<lparr>Files = [(''b.txt'', \<lparr>Status = ''present'', Meta = 2\<rparr>)]\<rparr>, True,
                    Some ''stale lock'')\<rparr>) None)) \<and>
   GetLastSnapshot (sampleEnv\<lparr>GetLastSnapshot := (None, False, Some ''no snapshot file'')\<rparr>) =
     (None, False, Some ''no snapshot file'') \<and>
   Log (LogFinalSnapshot None)
     \<notin> set (fst (main (sampleEnv\<lparr>GetLastSnapshot :=
                             (None, False, Some ''no snapshot file'')\<rparr>) None)) \<and>
   (\<forall>p. Log (LogTombstone p)
          \<notin> set (fst (main (sampleEnv\<lparr>GetLastSnapshot :=
                                  (None, False, Some ''no snapshot file'')\<rparr>) None)))"
proof -
  let ?last = "Some \<lparr>Files = [(''b.txt'', \<lparr>Status = ''present'', Meta = 2::nat\<rparr>)]\<rparr>"
  let ?cur = "Some \<lparr>Files = [(''a.txt'', \<lparr>Status = ''present'', Meta = 1::nat\<rparr>)]\<rparr>"
  let ?fin = "\<lparr>Files = [(''b.txt'', \<lparr>Status = StatusDeleted, Meta = 2::nat\<rparr>),
                         (''a.txt'', \<lparr>Status = ''present'', Meta = 1\<rparr>)]\<rparr>"
  let ?env = "sampleEnv\<lparr>GetLastSnapshot := (?last, True, Some ''stale lock'')\<rparr>"
  let ?env2 = "sampleEnv\<lparr>GetLastSnapshot := (None, False, Some ''no snapshot file'')\<rparr>"
  have h: "NewConnection ?env = None" "DeclareQueue ?env (queueName ?env) = None"
    "PurgeQueue ?env (queueName ?env) = Inr 0"
    "GetLastSnapshot ?env = (?last, True, Some ''stale lock'')"
    and c: "GetLocalMetadata ?env = (?cur, None)" "snd (GetLocalMetadata ?env) = None"
    by (simp_all add: sampleEnv_def)
  have h2: "NewConnection ?env2 = None" "DeclareQueue ?env2 (queueName ?env2) = None"
    "PurgeQueue ?env2 (queueName ?env2) = Inr 0"
    "GetLastSnapshot ?env2 = (None, False, Some ''no snapshot file'')"
    and c2: "GetLocalMetadata ?env2 = (?cur, None)"
    by (simp_all add: sampleEnv_def)
  have ps: "processSnapshots ?last ?cur = (Returns ?fin, [Log (LogTombstone ''b.txt'')])"
    by (simp add: processSnapshots_def)
  from last_snapshot_error_only_logged [OF h, of None] c ps have run: "\<exists>pre post.
      fst (main ?env None) =
        pre @ Call GetLastSnapshotCall # Log (LogError ''stale lock'') # post \<and>
      fst (main (sampleEnv\<lparr>GetLastSnapshot := (?last, True, None)\<rparr>) None) =
        pre @ Call GetLastSnapshotCall # post \<and>
      Call GetLocalMetadataCall \<in> set post \<and>
      Log LogLastExists \<in> set post \<and> Log LogLastMissing \<notin> set post \<and>
      (\<exists>mid rest.
         post = mid @ Log LogLastExists # [Log (LogTombstone ''b.txt'')] @
           snd (postSnapshot ?env (Some ?fin)) @ rest)"
    by simp blast
  from last_snapshot_error_only_logged [OF h, of None] c ps
  have "\<forall>s. Log (LogFinalSnapshot s) \<in> set (fst (main ?env None)) \<longrightarrow> s = Some ?fin"
    by simp blast
  then have only: "Log (LogFinalSnapshot ?cur) \<notin> set (fst (main ?env None))"
    by (auto simp: StatusDeleted_def)
  from last_snapshot_error_only_logged [OF h2, of None] c2
  have "(\<forall>s. Log (LogFinalSnapshot s) \<in> set (fst (main ?env2 None)) \<longrightarrow> s = ?cur) \<and>
      (\<forall>p. Log (LogTombstone p) \<notin> set (fst (main ?env2 None)))"
    by simp blast
  then have only2: "Log (LogFinalSnapshot None) \<notin> set (fst (main ?env2 None))"
    and tomb2: "\<forall>p. Log (LogTombstone p) \<notin> set (fst (main ?env2 None))"
    by auto
  from h h2 ps run only only2 tomb2 show ?thesis
    by simp
qed

end
